theory Spec2Isabelle
  imports Main "HOL-Library.Char_ord" "HOL-Library.List_Lexorder"
begin

section \<open>Go error values\<close>

text \<open>
  A Go \<^verbatim>\<open>error\<close> is an interface value: a dynamic type together with the text its
  \<^verbatim>\<open>Error()\<close> method returns. The constructors are the concrete error types the
  package \<^verbatim>\<open>rdb\<close> creates or meets:
  \<^item> \<open>errorString s\<close>: the value of \<^verbatim>\<open>errors.New(s)\<close>, and of \<^verbatim>\<open>fmt.Errorf\<close> with no
    \<^verbatim>\<open>%w\<close> verb;
  \<^item> \<open>wrapError s e\<close>: the value of \<^verbatim>\<open>fmt.Errorf\<close> with one \<^verbatim>\<open>%w\<close> verb; \<open>s\<close> is the
    formatted text and \<open>e\<close> the wrapped error;
  \<^item> \<open>TimeoutError m\<close> and \<open>TransmittedError m t\<close>: the two error structs of the package;
  \<^item> \<open>foreignError t m\<close>: an error of any other dynamic type \<open>t\<close> (a Redis client error, a
    worker's error), with \<^verbatim>\<open>Error()\<close> text \<open>m\<close>.
  A nil error is \<open>None\<close> of \<open>error option\<close>.
\<close>

datatype error =
    errorString string
  | wrapError string error
  | TimeoutError string
  | TransmittedError string string
  | foreignError string string

text \<open>The method \<^verbatim>\<open>Error()\<close> of each error type.\<close>

fun Error_text :: "error \<Rightarrow> string" where
  "Error_text (errorString s) = s"
| "Error_text (wrapError s e) = s"
| "Error_text (TimeoutError m) = m"
| "Error_text (TransmittedError m t) = ''TransmittedError('' @ t @ '': '' @ m @ '')''"
| "Error_text (foreignError t m) = m"

text \<open>The dynamic type name, as \<^verbatim>\<open>fmt.Sprintf("%T", err)\<close> prints it.\<close>

fun Type_name :: "error \<Rightarrow> string" where
  "Type_name (errorString s) = ''*errors.errorString''"
| "Type_name (wrapError s e) = ''*fmt.wrapError''"
| "Type_name (TimeoutError m) = ''rdb.TimeoutError''"
| "Type_name (TransmittedError m t) = ''*rdb.TransmittedError''"
| "Type_name (foreignError t m) = t"

text \<open>\<^verbatim>\<open>fmt.Errorf(prefix + ": %w", err)\<close>.\<close>

definition Errorf_w :: "string \<Rightarrow> error \<Rightarrow> error" where
  "Errorf_w prefix e = wrapError (prefix @ '': '' @ Error_text e) e"

section \<open>The Redis adapter (package rdb)\<close>

subsection \<open>Constants and data\<close>

definition MsgNewQuery :: string where "MsgNewQuery = ''newQuery''"
definition DefaultQueueKey :: string where "DefaultQueueKey = ''mqueryQueue''"
definition DefaultResultChannelPrefix :: string where
  "DefaultResultChannelPrefix = ''mqueryResults''"
definition DefaultQueryChannel :: string where "DefaultQueryChannel = ''mqueryQueries''"

text \<open>Durations are whole seconds.\<close>

definition DefaultResultExpiration :: int where "DefaultResultExpiration = 10 * 60"
definition DefaultQueryAnswerTimeout :: int where "DefaultQueryAnswerTimeout = 60"

definition ErrorEmptyQueue :: error where
  "ErrorEmptyQueue = errorString ''no queries in the queue''"

record ConcQueryArgs =
  CorpusPath :: string
  Query_arg :: string
  Attrs :: "string list"
  MaxItems :: int
  StartLine :: int
  MaxContext :: int
  ViewContextStruct :: string

record Query =
  Channel :: string
  Func :: string
  Args :: ConcQueryArgs

definition zero_ConcQueryArgs :: ConcQueryArgs where
  "zero_ConcQueryArgs = \<lparr>CorpusPath = [], Query_arg = [], Attrs = [], MaxItems = 0,
     StartLine = 0, MaxContext = 0, ViewContextStruct = []\<rparr>"

text \<open>The zero value \<^verbatim>\<open>Query{}\<close>.\<close>

definition zero_Query :: Query where
  "zero_Query = \<lparr>Channel = [], Func = [], Args = zero_ConcQueryArgs\<rparr>"

text \<open>
  The configuration \<^verbatim>\<open>Conf\<close> is declared outside the files at hand; the fields are the
  ones \<^verbatim>\<open>NewAdapter\<close> reads.
\<close>

record Conf =
  Host :: string
  Port :: int
  DB :: int
  Password :: string
  ChannelQuery :: string
  ChannelResultPrefix :: string
  QueryAnswerTimeoutSecs :: int

text \<open>
  The adapter. The Redis client and the cancellation context are not values of
  the model: the client's commands appear as the commands a function issues and the
  outcomes it is given, the context as an event of the waiting task.
\<close>

record Adapter =
  conf :: Conf
  redis_addr :: string
  channelQuery :: string
  channelResultPrefix :: string
  queryAnswerTimeout :: int

subsection \<open>NewAdapter\<close>

text \<open>
  \<^verbatim>\<open>NewAdapter\<close>, statement by statement. The branch for an empty \<^verbatim>\<open>chQuery\<close> declares a
  new variable (\<^verbatim>\<open>chQuery := DefaultQueryChannel\<close>) whose scope is the branch: the outer
  \<^verbatim>\<open>chQuery\<close>, which the adapter is built from, keeps its value. The inner variable is
  \<open>chQuery_inner\<close> below; only the log line reads it. The address is formatted by
  \<open>addr\<close>, standing for \<^verbatim>\<open>fmt.Sprintf("%s:%d", conf.Host, conf.Port)\<close>.
\<close>

definition NewAdapter :: "(string \<Rightarrow> int \<Rightarrow> string) \<Rightarrow> Conf \<Rightarrow> Adapter" where
  "NewAdapter addr cnf =
    (let chRes = ChannelResultPrefix cnf;
         chQuery = ChannelQuery cnf;
         chRes = (if chRes = [] then DefaultResultChannelPrefix else chRes);
         chQuery_inner = (if chQuery = [] then DefaultQueryChannel else chQuery);
         timeout = QueryAnswerTimeoutSecs cnf;
         timeout = (if timeout = 0 then DefaultQueryAnswerTimeout else timeout)
     in \<lparr>conf = cnf,
         redis_addr = addr (Host cnf) (Port cnf),
         channelQuery = chQuery,
         channelResultPrefix = chRes,
         queryAnswerTimeout = timeout\<rparr>)"

subsection \<open>DequeueQuery\<close>

text \<open>
  The result of a Redis string command: \<^verbatim>\<open>cmd.Val()\<close> and \<^verbatim>\<open>cmd.Err()\<close>.
\<close>

record StringCmd =
  Val :: string
  Err :: "error option"

text \<open>
  \<^verbatim>\<open>DecodeQuery\<close> decodes a gob payload; the decoder of \<^verbatim>\<open>encoding/gob\<close> is the
  parameter \<open>gob_dec\<close>. The function returns the decoded value together with the error,
  as the source does.
\<close>

definition DecodeQuery :: "(string \<Rightarrow> Query \<times> error option) \<Rightarrow> string \<Rightarrow> Query \<times> error option" where
  "DecodeQuery gob_dec q = gob_dec q"

text \<open>
  \<^verbatim>\<open>DequeueQuery\<close>, given the result \<open>cmd\<close> of \<^verbatim>\<open>RPOP mqueryQueue\<close>. The test of the
  value comes first, the test of the command's error second.
\<close>

definition DequeueQuery :: "(string \<Rightarrow> Query \<times> error option) \<Rightarrow> StringCmd \<Rightarrow> Query \<times> error option" where
  "DequeueQuery gob_dec cmd =
    (if Val cmd = [] then (zero_Query, Some ErrorEmptyQueue)
     else case Err cmd of
       Some e \<Rightarrow> (zero_Query, Some (Errorf_w ''failed to dequeue query'' e))
     | None \<Rightarrow>
        (case DecodeQuery gob_dec (Val cmd) of
           (q, Some e) \<Rightarrow> (zero_Query, Some (Errorf_w ''failed to deserialize query'' e))
         | (q, None) \<Rightarrow> (q, None)))"

subsection \<open>Worker results\<close>

text \<open>
  Modelled from the spec: the type \<^verbatim>\<open>result.ConcResult\<close> is declared outside the files at
  hand. The spec gives a worker result "a concordance size, the echoed query, and an
  ordered list of lines; each line is an ordered list of tokens; a token has a surface
  word and a boolean strong", "plus an optional transmitted error". The field names
  \<^verbatim>\<open>ConcSize\<close>, \<^verbatim>\<open>Query\<close>, \<^verbatim>\<open>Error\<close>, \<^verbatim>\<open>Lines\<close>, \<^verbatim>\<open>Text\<close>, \<^verbatim>\<open>Word\<close> and \<^verbatim>\<open>Strong\<close> are
  the ones the adapter and the handlers read.
\<close>

record Token =
  Word :: string
  Strong :: bool

record ConcordanceLine =
  Text :: "Token list"

record ConcResult =
  Lines :: "ConcordanceLine list"
  ConcSize :: int
  Query :: string
  Error :: "error option"

definition zero_ConcResult :: ConcResult where
  "zero_ConcResult = \<lparr>Lines = [], ConcSize = 0, Query = [], Error = None\<rparr>"

subsection \<open>Commands sent to Redis\<close>

text \<open>
  The calls a function makes on the Redis client, in the order it makes them.
  \<open>Set\<close> carries the key, the value and the expiration in seconds; \<open>Close_sub\<close> is
  \<^verbatim>\<open>sub.Close()\<close> on the subscription to a channel.
\<close>

datatype redis_cmd =
    Subscribe string
  | LPush string string
  | Publish string string
  | Set string string int
  | Get string
  | RPop string
  | Close_sub string

subsection \<open>PublishResult\<close>

text \<open>
  \<^verbatim>\<open>PublishResult\<close> writes through the pointer \<^verbatim>\<open>value\<close>: the model returns the value as the
  call leaves it, after the commands sent and before the error returned. The gob
  encoder is the parameter \<open>gob_enc\<close> (the bytes, or the encoder's error); \<open>publish_err\<close>
  is the outcome of the \<^verbatim>\<open>PUBLISH\<close> command. The result of \<^verbatim>\<open>SET\<close> is not read by the
  source.
\<close>

definition PublishResult ::
    "(ConcResult \<Rightarrow> error + string) \<Rightarrow> error option \<Rightarrow> string \<Rightarrow> ConcResult
      \<Rightarrow> redis_cmd list \<times> ConcResult \<times> error option" where
  "PublishResult gob_enc publish_err channelName v =
    (let v = (case Error v of
                Some e \<Rightarrow> v\<lparr>Error := Some (TransmittedError (Error_text e) (Type_name e))\<rparr>
              | None \<Rightarrow> v)
     in case gob_enc v of
          Inl err \<Rightarrow> ([], v, Some (Errorf_w ''failed to serialize (GOB) result'' err))
        | Inr msg \<Rightarrow>
            ([Set channelName msg DefaultResultExpiration, Publish channelName channelName],
             v, publish_err))"

subsection \<open>PublishQuery\<close>

text \<open>
  The part of \<^verbatim>\<open>PublishQuery\<close> that runs before it returns. \<open>uuid\<close> is the text of
  \<^verbatim>\<open>uuid.New()\<close>, \<open>gob_enc\<close> the gob encoder, \<open>lpush_err\<close> and \<open>publish_err\<close> the outcomes of
  the two commands whose errors the source reads. The result is the list of commands sent,
  in order, and the pair the source returns: the wait channel and the error. The wait
  channel \<^verbatim>\<open>ansChan\<close> is named by the reply channel whose task feeds it (\<open>None\<close> is nil);
  that task is \<open>waiter\<close> below.
\<close>

definition PublishQuery ::
    "(Query \<Rightarrow> error + string) \<Rightarrow> string \<Rightarrow> error option \<Rightarrow> error option \<Rightarrow> Adapter \<Rightarrow> Query
      \<Rightarrow> redis_cmd list \<times> string option \<times> error option" where
  "PublishQuery gob_enc uuid lpush_err publish_err a query =
    (let query = query\<lparr>Channel := channelResultPrefix a @ '':'' @ uuid\<rparr> in
     case gob_enc query of
       Inl err \<Rightarrow> ([], None, Some (Errorf_w ''failed to publish query'' err))
     | Inr msg \<Rightarrow>
        (case lpush_err of
           Some err \<Rightarrow>
             ([Subscribe (Channel query), LPush DefaultQueueKey msg], None, Some err)
         | None \<Rightarrow>
             ([Subscribe (Channel query), LPush DefaultQueueKey msg,
               Publish (channelQuery a) MsgNewQuery],
              Some (Channel query), publish_err)))"

text \<open>
  The task \<^verbatim>\<open>PublishQuery\<close> starts: a loop around a \<^verbatim>\<open>select\<close> with three cases. A run of
  the task is described by the cases the \<^verbatim>\<open>select\<close> takes, one per pass:
  \<^item> \<open>Received ok payload\<close>: the receive from \<^verbatim>\<open>sub.Channel()\<close>, with the flag \<open>ok\<close> and
    the payload of the message received;
  \<^item> \<open>ctx3_Done\<close>: the timeout context \<^verbatim>\<open>ctx3\<close> is done. Once done it stays done, so the
    case can be taken on every later pass;
  \<^item> \<open>ctx_Done\<close>: the adapter's context is cancelled.
\<close>

datatype select_case = Received bool string | ctx3_Done | ctx_Done

text \<open>
  How the task stands at the end of the cases given: blocked in \<^verbatim>\<open>select\<close>, returned (its
  deferred function has closed the subscription and the wait channel), or panicked.
\<close>

datatype task_state = Blocked | Returned | Panicked

text \<open>
  \<open>waiter redis_get gob_dec ans cases\<close> is the list of values the task sends on
  \<^verbatim>\<open>ansChan\<close>, in order, and the state it ends in. The channel is unbuffered: a send
  completes when the consumer receives, so the \<open>k\<close>-th value of the list is what the
  consumer's \<open>k\<close>-th receive gets. \<open>redis_get\<close> is the \<^verbatim>\<open>GET\<close> command; \<open>gob_dec\<close> decodes a
  payload into the variable \<^verbatim>\<open>ans\<close> and returns it with the decoder's error. The variable
  \<^verbatim>\<open>ans\<close> is declared outside the loop and keeps its value from pass to pass. A receive with
  \<open>ok\<close> false yields a nil message, whose field \<^verbatim>\<open>Payload\<close> the source then reads.
\<close>

fun waiter ::
    "(string \<Rightarrow> StringCmd) \<Rightarrow> (string \<Rightarrow> ConcResult \<Rightarrow> ConcResult \<times> error option) \<Rightarrow> ConcResult
      \<Rightarrow> select_case list \<Rightarrow> ConcResult list \<times> task_state" where
  "waiter redis_get gob_dec ans [] = ([], Blocked)"
| "waiter redis_get gob_dec ans (Received ok payload # cases) =
    (if \<not> ok then ([], Panicked)
     else
       (let cmd = redis_get payload;
            ans = (case Err cmd of
                     Some e \<Rightarrow> ans\<lparr>Error := Some e\<rparr>
                   | None \<Rightarrow>
                      (case gob_dec (Val cmd) ans of
                         (ans', Some err) \<Rightarrow> ans'\<lparr>Error := Some err\<rparr>
                       | (ans', None) \<Rightarrow> ans'))
        in ([ans], Returned)))"
| "waiter redis_get gob_dec ans (ctx3_Done # cases) =
    (let ans = ans\<lparr>Error := Some (errorString ''waiting for worker response timeout'')\<rparr> in
     case waiter redis_get gob_dec ans cases of (sent, st) \<Rightarrow> (ans # sent, st))"
| "waiter redis_get gob_dec ans (ctx_Done # cases) = ([], Returned)"

text \<open>
  Modelled from the spec: the Redis server is outside the repository. The spec's transport
  model has "a durable FIFO list, per-channel publish/subscribe notifications, and a
  key-value store". The state below keeps the channels subscribed to, the notifications
  delivered to their subscriptions, the lists and the keys; a \<^verbatim>\<open>PUBLISH\<close> on a channel
  nobody is subscribed to is lost.
\<close>

record broker =
  subscribed :: "string list"
  delivered :: "(string \<times> string) list"
  lists :: "string \<Rightarrow> string list"
  store :: "string \<Rightarrow> string option"

fun redis_exec :: "broker \<Rightarrow> redis_cmd \<Rightarrow> broker" where
  "redis_exec b (Subscribe ch) = b\<lparr>subscribed := ch # subscribed b\<rparr>"
| "redis_exec b (Close_sub ch) = b\<lparr>subscribed := remove1 ch (subscribed b)\<rparr>"
| "redis_exec b (LPush k v) = b\<lparr>lists := (lists b)(k := v # lists b k)\<rparr>"
| "redis_exec b (RPop k) = b\<lparr>lists := (lists b)(k := butlast (lists b k))\<rparr>"
| "redis_exec b (Publish ch m) =
     (if ch \<in> set (subscribed b) then b\<lparr>delivered := delivered b @ [(ch, m)]\<rparr> else b)"
| "redis_exec b (Set k v ttl) = b\<lparr>store := (store b)(k := Some v)\<rparr>"
| "redis_exec b (Get k) = b"

section \<open>The query translator (package basic)\<close>

subsection \<open>The syntax tree and the transformer\<close>

text \<open>
  The node types are the ones the parser's reductions build: \<^verbatim>\<open>&rootNode{n}\<close>,
  \<^verbatim>\<open>&termNode{s}\<close>, \<^verbatim>\<open>&parenNode{n}\<close>, \<^verbatim>\<open>&unaryNode{Op, Child}\<close> and
  \<^verbatim>\<open>&binaryNode{Op, Left, Right}\<close>. \<open>nilNode\<close> is the nil value of the interface
  \<^verbatim>\<open>node\<close>.
\<close>

datatype node =
    nilNode
  | rootNode node
  | termNode string
  | parenNode node
  | unaryNode string node
  | binaryNode string node node

record basicTransformer =
  input :: string
  parseResult :: node
  defaultAttr :: string
  errors :: "error list"

text \<open>
  \<^verbatim>\<open>TranslateWithinCtx\<close> has a pointer receiver; the model returns the transformer with
  the result, so that what the method does to it can be stated. The \<^verbatim>\<open>switch\<close> is the
  chain of comparisons below, in the source's order.
\<close>

definition TranslateWithinCtx :: "basicTransformer \<Rightarrow> string \<Rightarrow> string \<times> basicTransformer" where
  "TranslateWithinCtx t v =
    (if v = ''sentence'' \<or> v = ''s'' then (''s'', t)
     else if v = ''utterance'' \<or> v = ''u'' then (''u'', t)
     else if v = ''paragraph'' \<or> v = ''p'' then (''p'', t)
     else if v = ''turn'' \<or> v = ''t'' then (''t'', t)
     else if v = ''text'' then (''doc'', t)
     else if v = ''session'' then (''session'', t)
     else (''??'', t))"

definition AddError :: "basicTransformer \<Rightarrow> error \<Rightarrow> basicTransformer" where
  "AddError t err = t\<lparr>errors := errors t @ [err]\<rparr>"

definition Errors :: "basicTransformer \<Rightarrow> error list" where
  "Errors t = errors t"

text \<open>
  The method \<^verbatim>\<open>Error(e string)\<close> of the transformer, by which the parser reports a syntax
  error through its interface \<^verbatim>\<open>yyLexer\<close>: \<^verbatim>\<open>t.AddError(errors.New(e))\<close>. It is
  \<open>yylex_Error\<close> here, \<open>Error\<close> being the field of a worker result.
\<close>

definition yylex_Error :: "basicTransformer \<Rightarrow> string \<Rightarrow> basicTransformer" where
  "yylex_Error t e = AddError t (errorString e)"

subsection \<open>The lexer\<close>

definition EOF :: int where "EOF = 0"

definition yyDefault :: int where "yyDefault = 57351"
definition yyEofCode :: int where "yyEofCode = 57344"
definition AND :: int where "AND = 57348"
definition NOT :: int where "NOT = 57347"
definition OR :: int where "OR = 57349"
definition PROX :: int where "PROX = 57350"
definition TERM_tok :: int where "TERM_tok = 57346"
text \<open>The token \<^verbatim>\<open>TERM\<close> is \<open>TERM_tok\<close> here (the name is taken in the logic).\<close>

definition yyErrCode :: int where "yyErrCode = 57345"
definition yyMaxDepth :: int where "yyMaxDepth = 200"
definition yyTabOfs :: int where "yyTabOfs = - 8"

record yySymType =
  yys :: int
  String :: string
  Node :: node

definition zero_yySymType :: yySymType where
  "zero_yySymType = \<lparr>yys = 0, String = [], Node = nilNode\<rparr>"

text \<open>
  The six regular expressions of \<^verbatim>\<open>tokens\<close>, each as the function
  \<^verbatim>\<open>regex.FindString\<close> computes on the input: the matched text, or the empty string when
  nothing matches. All six are anchored at the start. Strings are byte strings; the
  classes below are classes of ASCII bytes, and every byte of a multi-byte character is
  outside them, so matching bytes is matching characters.
  \<^item> \<^verbatim>\<open>^NOT\<close>, \<^verbatim>\<open>^AND\<close>, \<^verbatim>\<open>^OR\<close>, \<^verbatim>\<open>^PROX\<close>: the keyword, when the input starts with it.
  \<^item> \<^verbatim>\<open>^\".*\"\<close>: a double quote, then the longest run of characters other than a newline
    that ends the match in a double quote.
  \<^item> \<^verbatim>\<open>^[\S]*\<close>: the longest run of characters that are not white space, where white
    space is tab, newline, form feed, carriage return and space.
\<close>

definition find_keyword :: "string \<Rightarrow> string \<Rightarrow> string" where
  "find_keyword kw s = (if take (length kw) s = kw then kw else [])"

definition find_quoted :: "string \<Rightarrow> string" where
  "find_quoted s =
    (case s of
       [] \<Rightarrow> []
     | c # rest \<Rightarrow>
        if c \<noteq> CHR 0x22 then []
        else (let line = takeWhile (\<lambda>d. d \<noteq> CHR 0x0A) rest;
                  upto_quote = rev (dropWhile (\<lambda>d. d \<noteq> CHR 0x22) (rev line))
              in if upto_quote = [] then [] else c # upto_quote))"

definition is_regex_space :: "char \<Rightarrow> bool" where
  "is_regex_space c =
    (c = CHR 0x09 \<or> c = CHR 0x0A \<or> c = CHR 0x0C \<or> c = CHR 0x0D \<or> c = CHR 0x20)"

definition find_nonspace :: "string \<Rightarrow> string" where
  "find_nonspace s = takeWhile (\<lambda>c. \<not> is_regex_space c) s"

text \<open>The table \<^verbatim>\<open>tokens\<close>: the matcher of each regular expression and its token.\<close>

definition tokens :: "((string \<Rightarrow> string) \<times> int) list" where
  "tokens =
    [(find_keyword ''NOT'', NOT),
     (find_keyword ''AND'', AND),
     (find_keyword ''OR'', OR),
     (find_keyword ''PROX'', PROX),
     (find_quoted, TERM_tok),
     (find_nonspace, TERM_tok)]"

definition isSpace :: "char \<Rightarrow> bool" where
  "isSpace c = (c = CHR 0x20 \<or> c = CHR 0x09 \<or> c = CHR 0x0A)"

text \<open>\<^verbatim>\<open>strings.Trim(str, "\"")\<close>: all leading and trailing double quotes removed.\<close>

definition Trim_quotes :: "string \<Rightarrow> string" where
  "Trim_quotes s =
     rev (dropWhile (\<lambda>c. c = CHR 0x22) (rev (dropWhile (\<lambda>c. c = CHR 0x22) s)))"

text \<open>
  The loop of \<^verbatim>\<open>Lex\<close> over \<^verbatim>\<open>tokens\<close>: the first definition whose expression matches
  a non-empty text gives the token; the result is the matched text and the token.
\<close>

fun first_match :: "((string \<Rightarrow> string) \<times> int) list \<Rightarrow> string \<Rightarrow> (string \<times> int) option" where
  "first_match [] s = None"
| "first_match ((regex, tok) # defs) s =
     (let str = regex s in if str \<noteq> [] then Some (str, tok) else first_match defs s)"

text \<open>
  \<^verbatim>\<open>Lex\<close> changes the transformer's input and the parser's \<^verbatim>\<open>lval\<close>; the model returns
  the token with both. The input with its leading spaces skipped is stored back in every
  case, as the loop of the source assigns \<^verbatim>\<open>t.input\<close> on each step.
\<close>

definition Lex :: "basicTransformer \<Rightarrow> yySymType \<Rightarrow> int \<times> basicTransformer \<times> yySymType" where
  "Lex t lval =
    (let inp = dropWhile isSpace (input t) in
     if length inp = 0 then (EOF, t\<lparr>input := inp\<rparr>, lval)
     else case first_match tokens inp of
       Some (str, tok) \<Rightarrow>
         (tok, t\<lparr>input := drop (length str) inp\<rparr>,
          lval\<lparr>String := (if tok = TERM_tok then Trim_quotes str else str)\<rparr>)
     | None \<Rightarrow> (int (of_char (hd inp)), t\<lparr>input := tl inp\<rparr>, lval))"

subsection \<open>The parser's tables\<close>

definition yyXLAT :: "int \<Rightarrow> int option" where
  "yyXLAT c =
    (if c = 57344 then Some 0
     else if c = 57348 then Some 1
     else if c = 57349 then Some 2
     else if c = 57350 then Some 3
     else if c = 41 then Some 4
     else if c = 40 then Some 5
     else if c = 57352 then Some 6
     else if c = 57347 then Some 7
     else if c = 57346 then Some 8
     else if c = 57353 then Some 9
     else if c = 57351 then Some 10
     else if c = 57345 then Some 11
     else None)"

definition yySymNames :: "string list" where
  "yySymNames =
    [''$end'', ''AND'', ''OR'', ''PROX'', [CHR 0x27, CHR '')'', CHR 0x27],
     [CHR 0x27, CHR ''('', CHR 0x27], ''node'', ''NOT'', ''TERM'', ''start'', ''$default'',
     ''error'']"

text \<open>
  \<^verbatim>\<open>yyReductions\<close>: the left-hand symbol and the number of components of each rule. A
  key that is not in a Go map reads as the zero value.
\<close>

definition yyReductions :: "int \<Rightarrow> int \<times> int" where
  "yyReductions r =
    (if r = 0 then (0, 1)
     else if r = 1 then (9, 1)
     else if r = 2 then (6, 1)
     else if r = 3 then (6, 3)
     else if r = 4 then (6, 2)
     else if r = 5 then (6, 3)
     else if r = 6 then (6, 3)
     else if r = 7 then (6, 3)
     else (0, 0))"

text \<open>
  \<^verbatim>\<open>yyParseTab\<close>, each row written out: a keyed element \<^verbatim>\<open>5: 12\<close> of the Go literal
  puts zeros at the indices 0 to 4, and the elements after it follow at 6, 7, ...
\<close>

definition yyParseTab :: "nat list list" where
  "yyParseTab =
    [[0, 0, 0, 0, 0, 12, 10, 13, 11, 9],
     [8],
     [7, 15, 16, 17],
     [6, 6, 6, 6, 6],
     [0, 0, 0, 0, 0, 12, 21, 13, 11],
     [0, 0, 0, 0, 0, 12, 14, 13, 11],
     [4, 4, 4, 4, 4],
     [0, 0, 0, 0, 0, 12, 20, 13, 11],
     [0, 0, 0, 0, 0, 12, 19, 13, 11],
     [0, 0, 0, 0, 0, 12, 18, 13, 11],
     [1, 1, 1, 1, 1],
     [2, 2, 2, 2, 2],
     [3, 3, 3, 3, 3],
     [0, 15, 16, 17, 22],
     [5, 5, 5, 5, 5]]"

text \<open>
  Indexing an array or a slice outside its bounds panics in Go. \<open>index xs i\<close> is
  \<^verbatim>\<open>xs[i]\<close>, with \<open>None\<close> for the panic.
\<close>

definition index :: "'a list \<Rightarrow> int \<Rightarrow> 'a option" where
  "index xs i = (if 0 \<le> i \<and> i < int (length xs) then Some (xs ! nat i) else None)"

subsection \<open>Symbol names and the error message\<close>

definition hex_digit :: "nat \<Rightarrow> char" where
  "hex_digit n = ''0123456789abcdef'' ! (n mod 16)"

text \<open>
  \<^verbatim>\<open>fmt.Sprintf("%q", c)\<close> for an integer \<open>c < 0x7f\<close>: the character as a quoted Go
  character literal. A negative number is not a character and prints as the replacement
  character U+FFFD (three bytes in UTF-8).
\<close>

definition Sprintf_q :: "int \<Rightarrow> string" where
  "Sprintf_q c =
    [CHR 0x27] @
    (if c < 0 then [CHR 0xEF, CHR 0xBF, CHR 0xBD]
     else if c = 0x27 \<or> c = 0x5C then [CHR 0x5C, char_of (nat c)]
     else if 0x20 \<le> c \<and> c < 0x7F then [char_of (nat c)]
     else if c = 7 then [CHR 0x5C, CHR ''a'']
     else if c = 8 then [CHR 0x5C, CHR ''b'']
     else if c = 12 then [CHR 0x5C, CHR ''f'']
     else if c = 10 then [CHR 0x5C, CHR ''n'']
     else if c = 13 then [CHR 0x5C, CHR ''r'']
     else if c = 9 then [CHR 0x5C, CHR ''t'']
     else if c = 11 then [CHR 0x5C, CHR ''v'']
     else [CHR 0x5C, CHR ''x'', hex_digit (nat c div 16), hex_digit (nat c)])
    @ [CHR 0x27]"

fun dec_digits :: "nat \<Rightarrow> string" where
  "dec_digits n =
     (if n < 10 then [char_of (48 + n)]
      else dec_digits (n div 10) @ [char_of (48 + n mod 10)])"

text \<open>\<^verbatim>\<open>fmt.Sprintf("%d", c)\<close>.\<close>

definition Sprintf_d :: "int \<Rightarrow> string" where
  "Sprintf_d c = (if c < 0 then CHR ''-'' # dec_digits (nat (- c)) else dec_digits (nat c))"

definition yySymName :: "int \<Rightarrow> string" where
  "yySymName c =
    (case yyXLAT c of
       Some x \<Rightarrow> yySymNames ! nat x
     | None \<Rightarrow> if c < 0x7f then Sprintf_q c else Sprintf_d c)"

text \<open>
  The message of a new syntax error. The maps \<^verbatim>\<open>yyXErrors\<close> and
  \<^verbatim>\<open>yyTokenLiteralStrings\<close> are empty, so the four lookups that come first in the source
  leave \<^verbatim>\<open>msg\<close> empty and \<^verbatim>\<open>ls\<close> is the symbol's name.
\<close>

definition syntax_error_msg :: "int \<Rightarrow> string" where
  "syntax_error_msg c =
    (let msg = [];
         msg = (if c > 0 then
                  (let ls = yySymName c in
                   if ls \<noteq> [] then ''unexpected '' @ ls else msg)
                else msg)
     in if msg = [] then ''syntax error'' else msg)"

definition yylex1 :: "basicTransformer \<Rightarrow> yySymType \<Rightarrow> int \<times> basicTransformer \<times> yySymType" where
  "yylex1 yylex lval =
    (case Lex yylex lval of (n, yylex', lval') \<Rightarrow>
       ((if n \<le> 0 then yyEofCode else n), yylex', lval'))"

subsection \<open>yyParse\<close>

text \<open>
  The variables of \<^verbatim>\<open>yyParse\<close>. The stack \<^verbatim>\<open>yyS\<close> is a slice of 200 values that the
  source doubles whenever \<^verbatim>\<open>yyp\<close> reaches its length, keeping the old content and filling
  the rest with zero values: it is an array without an upper bound, a function from the
  indices to the values, which starts as the constant zero value. Only a negative index
  panics.
\<close>

record yyParser =
  yylex :: basicTransformer
  yylval :: yySymType
  yyVAL :: yySymType
  yyS :: "nat \<Rightarrow> yySymType"
  Nerrs :: int
  Errflag :: int
  yystate :: int
  yychar :: int
  yyxchar :: int
  yyshift :: int
  yyp :: int

text \<open>
  What a call can end in: it returns a value, or it panics. That it might run forever is
  \<open>None\<close> of the option type around it (see \<open>yyrun\<close>).
\<close>

datatype 'a outcome = Returns 'a | Panics

text \<open>The labels \<^verbatim>\<open>yystack\<close> and \<^verbatim>\<open>yynewstate\<close>, the two targets of the loop's jumps.\<close>

datatype label = L_yystack | L_yynewstate

definition stack_at :: "yyParser \<Rightarrow> int \<Rightarrow> yySymType option" where
  "stack_at c i = (if 0 \<le> i then Some (yyS c (nat i)) else None)"

text \<open>
  The search of the error recovery for a state that shifts \<^verbatim>\<open>error\<close> (column
  \<^verbatim>\<open>yyError = 11\<close>): from \<^verbatim>\<open>yyp\<close> down to 0. The argument \<open>k\<close> is \<^verbatim>\<open>yyp + 1\<close>, or 0 when
  \<^verbatim>\<open>yyp\<close> is negative and the loop is not entered. The result
  is the panic of an index out of range, or the \<^verbatim>\<open>yyp\<close> and the state of the hit, or
  \<open>None\<close> when the stack is exhausted.
\<close>

fun find_error_shift :: "(nat \<Rightarrow> yySymType) \<Rightarrow> nat \<Rightarrow> (int \<times> int) option outcome" where
  "find_error_shift S 0 = Returns None"
| "find_error_shift S (Suc p) =
    (case index yyParseTab (yys (S p)) of
       None \<Rightarrow> Panics
     | Some row \<Rightarrow>
        if 11 < length row \<and> int (row ! 11) + yyTabOfs > 0
        then Returns (Some (int p, int (row ! 11) + yyTabOfs))
        else find_error_shift S p)"

text \<open>
  The code from the label \<^verbatim>\<open>yystack\<close> to \<^verbatim>\<open>yynewstate\<close>: push the state and the value.
\<close>

definition yystack :: "yyParser \<Rightarrow> yyParser outcome" where
  "yystack c =
    (let p = yyp c + 1 in
     if p < 0 then Panics
     else Returns (c\<lparr>yyp := p, yyS := (yyS c)(nat p := (yyVAL c)\<lparr>yys := yystate c\<rparr>)\<rparr>))"

text \<open>The first statement after \<^verbatim>\<open>yynewstate\<close>: read a token when none is held.\<close>

definition read_token :: "yyParser \<Rightarrow> yyParser" where
  "read_token c =
    (if yychar c < 0 then
       (case yylex1 (yylex c) ((yylval c)\<lparr>yys := yystate c\<rparr>) of (n, t', lval') \<Rightarrow>
          c\<lparr>yylex := t', yylval := lval', yychar := n,
            yyxchar := (case yyXLAT n of Some x \<Rightarrow> x | None \<Rightarrow> int (length yySymNames))\<rparr>)
     else c)"

text \<open>
  The action \<^verbatim>\<open>yyn\<close> of the table for the state and the token: positive to shift,
  negative to reduce, zero for neither.
\<close>

definition action :: "yyParser \<Rightarrow> int outcome" where
  "action c =
    (case index yyParseTab (yystate c) of
       None \<Rightarrow> Panics
     | Some row \<Rightarrow>
        if yyxchar c < int (length row) then
          (case index row (yyxchar c) of
             None \<Rightarrow> Panics
           | Some e \<Rightarrow> Returns (if int e \<noteq> 0 then int e + yyTabOfs else 0))
        else Returns 0)"

text \<open>
  The reduction by rule \<open>r = - yyn\<close>, from the line \<^verbatim>\<open>r := -yyn\<close> to the jump back to
  \<^verbatim>\<open>yystack\<close>. The transformer implements no \<^verbatim>\<open>Reduced\<close> method, so \<^verbatim>\<open>yyEx\<close> is nil.
\<close>

definition reduce :: "yyParser \<Rightarrow> int \<Rightarrow> yyParser outcome" where
  "reduce c yyn =
    (let r = - yyn;
         (x, n) = yyReductions r;
         yypt = yyp c;
         p = yyp c - n
     in case (stack_at c (p + 1), stack_at c p) of
          (Some val, Some below) \<Rightarrow>
            (case index yyParseTab (yys below) of
               None \<Rightarrow> Panics
             | Some row \<Rightarrow>
                (case index row x of
                   None \<Rightarrow> Panics
                 | Some e \<Rightarrow>
                    (let c1 = c\<lparr>yyp := p, yyVAL := val, yystate := int e + yyTabOfs\<rparr> in
                     if r = 1 then
                       (case stack_at c yypt of
                          Some s0 \<Rightarrow>
                            Returns (c1\<lparr>yylex := (yylex c1)\<lparr>parseResult := rootNode (Node s0)\<rparr>\<rparr>)
                        | None \<Rightarrow> Panics)
                     else if r = 2 then
                       (case stack_at c yypt of
                          Some s0 \<Rightarrow> Returns (c1\<lparr>yyVAL := val\<lparr>Node := termNode (String s0)\<rparr>\<rparr>)
                        | None \<Rightarrow> Panics)
                     else if r = 3 then
                       (case stack_at c (yypt - 1) of
                          Some s1 \<Rightarrow> Returns (c1\<lparr>yyVAL := val\<lparr>Node := parenNode (Node s1)\<rparr>\<rparr>)
                        | None \<Rightarrow> Panics)
                     else if r = 4 then
                       (case stack_at c yypt of
                          Some s0 \<Rightarrow>
                            Returns (c1\<lparr>yyVAL := val\<lparr>Node := unaryNode ''NOT'' (Node s0)\<rparr>\<rparr>)
                        | None \<Rightarrow> Panics)
                     else if r = 5 \<or> r = 6 \<or> r = 7 then
                       (case (stack_at c (yypt - 2), stack_at c yypt) of
                          (Some s2, Some s0) \<Rightarrow>
                            Returns (c1\<lparr>yyVAL := val\<lparr>Node :=
                              binaryNode (if r = 5 then ''AND'' else if r = 6 then ''OR'' else ''PROX'')
                                (Node s2) (Node s0)\<rparr>\<rparr>)
                        | _ \<Rightarrow> Panics)
                     else Returns c1)))
        | _ \<Rightarrow> Panics)"

text \<open>
  The code from the label \<^verbatim>\<open>yynewstate\<close> to the next jump (\<open>Inl\<close>, with the label jumped
  to) or to the return (\<open>Inr\<close>). The result of \<^verbatim>\<open>yyParse\<close> is its return code together
  with the transformer, whose fields the run has changed.
\<close>

definition yynewstate :: "yyParser \<Rightarrow> (label \<times> yyParser) + (int \<times> basicTransformer) outcome" where
  "yynewstate c0 =
    (let c = read_token c0 in
     case action c of
       Panics \<Rightarrow> Inr Panics
     | Returns yyn \<Rightarrow>
        if yyn > 0 then
          Inl (L_yystack,
               c\<lparr>yychar := - 1, yyVAL := yylval c, yystate := yyn, yyshift := yyn,
                 Errflag := (if Errflag c > 0 then Errflag c - 1 else Errflag c)\<rparr>)
        else if yyn < 0 then
          (case reduce c yyn of Panics \<Rightarrow> Inr Panics | Returns c' \<Rightarrow> Inl (L_yystack, c'))
        else if yystate c = 1 then Inr (Returns (0, yylex c))
        else if Errflag c = 0 \<or> Errflag c = 1 \<or> Errflag c = 2 then
          (let c1 = (if Errflag c = 0
                     then c\<lparr>yylex := yylex_Error (yylex c) (syntax_error_msg (yychar c)),
                             Nerrs := Nerrs c + 1\<rparr>
                     else c);
               c2 = c1\<lparr>Errflag := 3\<rparr>
           in case find_error_shift (yyS c2) (nat (yyp c2 + 1)) of
                Panics \<Rightarrow> Inr Panics
              | Returns (Some (p, st)) \<Rightarrow> Inl (L_yystack, c2\<lparr>yyp := p, yystate := st\<rparr>)
              | Returns None \<Rightarrow> Inr (Returns (1, yylex c2)))
        else if Errflag c = 3 then
          (if yychar c = yyEofCode then Inr (Returns (1, yylex c))
           else Inl (L_yynewstate, c\<lparr>yychar := - 1\<rparr>))
        else
          (case reduce c yyn of Panics \<Rightarrow> Inr Panics | Returns c' \<Rightarrow> Inl (L_yystack, c')))"

text \<open>
  One pass of the loop, from the label it is entered at: a jump to \<^verbatim>\<open>yystack\<close> runs the
  push and goes on at \<^verbatim>\<open>yynewstate\<close>.
\<close>

definition yystep :: "label \<times> yyParser \<Rightarrow> (label \<times> yyParser) + (int \<times> basicTransformer) outcome" where
  "yystep lc =
    (case fst lc of
       L_yystack \<Rightarrow>
         (case yystack (snd lc) of Panics \<Rightarrow> Inr Panics | Returns c0 \<Rightarrow> yynewstate c0)
     | L_yynewstate \<Rightarrow> yynewstate (snd lc))"

text \<open>
  The loop. Nothing in its form bounds the number of passes, so a run that never
  returns is the value \<open>None\<close>.
\<close>

partial_function (option) yyrun :: "label \<times> yyParser \<Rightarrow> (int \<times> basicTransformer) outcome option" where
  "yyrun lc = (case yystep lc of Inl lc' \<Rightarrow> yyrun lc' | Inr res \<Rightarrow> Some res)"

declare yyrun.simps [code]

definition yyParser_init :: "basicTransformer \<Rightarrow> yyParser" where
  "yyParser_init t =
    \<lparr>yylex = t, yylval = zero_yySymType, yyVAL = zero_yySymType,
     yyS = (\<lambda>i. zero_yySymType), Nerrs = 0, Errflag = 0, yystate = 0, yychar = - 1,
     yyxchar = 0, yyshift = 0, yyp = - 1\<rparr>"

definition yyParse :: "basicTransformer \<Rightarrow> (int \<times> basicTransformer) outcome option" where
  "yyParse t = yyrun (L_yystack, yyParser_init t)"

subsection \<open>NewBasicTransformer\<close>

text \<open>
  The result is the pair the source returns: the transformer (\<open>None\<close> for nil) and the
  error (\<open>None\<close> for nil). The parameter \<^verbatim>\<open>defaultAttr\<close> is not stored by the source:
  the struct literal sets \<^verbatim>\<open>input\<close> only.
\<close>

definition NewBasicTransformer ::
    "string \<Rightarrow> string \<Rightarrow> (basicTransformer option \<times> error option) outcome option" where
  "NewBasicTransformer inp dflt =
    (let t = \<lparr>input = inp, parseResult = nilNode, defaultAttr = [], errors = []\<rparr> in
     case yyParse t of
       None \<Rightarrow> None
     | Some Panics \<Rightarrow> Some Panics
     | Some (Returns (code, t')) \<Rightarrow>
        Some (Returns (if length (errors t') > 0 then (None, Some (errors t' ! 0))
                       else (Some t', None))))"

subsection \<open>Runs of the parser\<close>

text \<open>
  Two predicates for the proofs about \<^verbatim>\<open>yyParse\<close>. A pass starts \<open>clean\<close> when no error is
  being recovered from and none has been reported. The \<open>verdict\<close> of a run that returns:
  code 0 and no error, or code 1 and the one syntax error reported.
\<close>

definition clean :: "label \<times> yyParser \<Rightarrow> bool" where
  "clean lc = (Errflag (snd lc) = 0 \<and> errors (yylex (snd lc)) = [])"

definition verdict :: "(int \<times> basicTransformer) outcome \<Rightarrow> bool" where
  "verdict res =
    (case res of
       Panics \<Rightarrow> True
     | Returns (code, t) \<Rightarrow>
         (code = 0 \<and> errors t = []) \<or>
         (code = 1 \<and> (\<exists>c. errors t = [errorString (syntax_error_msg c)])))"

text \<open>
  The rest of the subsection serves the proof that the parser returns on every input.

  \<open>entries\<close> lists the table as triples of a state, a column and the entry; \<open>edges\<close> are
  the pairs of a state and the state that one of its entries above 8 (a shift or a goto)
  leads to; \<open>reduces\<close> pairs the states with their entries from 1 to 7 (the reductions),
  and \<open>column0\<close> holds the entries for the end of the input.
\<close>

definition entries :: "(int \<times> int \<times> nat) list" where
  "entries =
     concat (map (\<lambda>(p, row). map (\<lambda>(x, e). (int p, int x, e)) (enumerate 0 row))
       (enumerate 0 yyParseTab))"

definition edges :: "(int \<times> int) list" where
  "edges = map (\<lambda>(p, x, e). (p, int e - 8)) (filter (\<lambda>(p, x, e). 8 < e) entries)"

definition reduces :: "(int \<times> nat) list" where
  "reduces = remdups (map (\<lambda>(p, x, e). (p, e)) (filter (\<lambda>(p, x, e). 0 < e \<and> e < 8) entries))"

definition column0 :: "nat list" where
  "column0 = remdups (map (\<lambda>(p, x, e). e) (filter (\<lambda>(p, x, e). x = 0) entries))"

text \<open>
  The states on the stack, from the top down, always spell a path of the automaton: it
  starts in state 0 at the bottom and follows an edge at every step. States with the
  column for \<^verbatim>\<open>node\<close> are the ones a reduction to \<^verbatim>\<open>node\<close> may uncover.
\<close>

definition edge :: "int \<Rightarrow> int \<Rightarrow> bool" where
  "edge p s = (\<exists>row x e. index yyParseTab p = Some row \<and> index row x = Some e \<and> 8 < e \<and> s = int e - 8)"

fun valid :: "int list \<Rightarrow> bool" where
  "valid [] = False"
| "valid [s] = (s = 0)"
| "valid (s # p # rest) = (edge p s \<and> valid (p # rest))"

definition has_goto :: "int \<Rightarrow> bool" where
  "has_goto b = (b = 0 \<or> b = 4 \<or> b = 5 \<or> b = 7 \<or> b = 8 \<or> b = 9)"

text \<open>
  \<open>pathP\<close> reads the states off the stack, \<^verbatim>\<open>yyS[yyp]\<close> first. \<open>xlat\<close> is the column of a
  token as \<^verbatim>\<open>yynewstate\<close> computes it. A parser is \<open>settled\<close> when it recovers from no
  error, has reported none, and the column it holds is the one of the token it holds.
  \<open>good\<close> is the invariant at the label \<^verbatim>\<open>yystack\<close> (the state to push continues the path
  on the stack), \<open>pushed\<close> the one after the push.
\<close>

definition pathP :: "yyParser \<Rightarrow> int list" where
  "pathP c = map (\<lambda>i. yys (yyS c i)) (rev [0..<nat (yyp c + 1)])"

definition xlat :: "int \<Rightarrow> int" where
  "xlat n = (case yyXLAT n of Some x \<Rightarrow> x | None \<Rightarrow> int (length yySymNames))"

definition settled :: "yyParser \<Rightarrow> bool" where
  "settled c = (Errflag c = 0 \<and> errors (yylex c) = [] \<and> (0 \<le> yychar c \<longrightarrow> yyxchar c = xlat (yychar c)))"

definition good :: "label \<times> yyParser \<Rightarrow> bool" where
  "good lc = (fst lc = L_yystack \<and> settled (snd lc) \<and> - 1 \<le> yyp (snd lc) \<and>
     valid (yystate (snd lc) # pathP (snd lc)))"

definition pushed :: "yyParser \<Rightarrow> bool" where
  "pushed c = (settled c \<and> 0 \<le> yyp c \<and> valid (pathP c) \<and> hd (pathP c) = yystate c)"

text \<open>
  What decreases from pass to pass, in this order: the \<open>weight\<close> (twice the length of the
  input left, plus 2 for a token held, 1 for none, 0 for the end of the input held), the
  height of the stack, and the \<open>rank\<close> of the state (a reduction of one component leads
  from state 3 to another state, and from state 2 to state 1).
\<close>

definition rank :: "int \<Rightarrow> nat" where
  "rank s = (if s = 3 then 2 else if s = 2 then 1 else 0)"

definition weight :: "yyParser \<Rightarrow> nat" where
  "weight c = 2 * length (input (yylex c)) +
     (if yychar c < 0 then 1 else if yychar c = yyEofCode then 0 else 2)"

definition closer :: "yyParser \<Rightarrow> yyParser \<Rightarrow> bool" where
  "closer c' c0 =
    (weight c' < weight c0 \<or>
     weight c' = weight c0 \<and>
       (nat (yyp c' + 1) < nat (yyp c0) \<or>
        nat (yyp c' + 1) = nat (yyp c0) \<and> rank (yystate c') < rank (yystate c0)))"

definition mu :: "label \<times> yyParser \<Rightarrow> nat \<times> nat \<times> nat" where
  "mu lc = (weight (snd lc), nat (yyp (snd lc) + 1), rank (yystate (snd lc)))"

section \<open>The FCS handlers\<close>

subsection \<open>The request and the registry\<close>

text \<open>
  The parsed query string (\<^verbatim>\<open>ctx.Request.URL.Query()\<close>, a \<^verbatim>\<open>url.Values\<close>): a map from
  the keys to the lists of their values. \<open>Has\<close> is the method of \<^verbatim>\<open>url.Values\<close>;
  \<open>ctx_Query\<close> is \<^verbatim>\<open>ctx.Query\<close> of the web framework, the first value of the key, or
  the empty string when the key is absent.
\<close>

type_synonym Values = "string \<Rightarrow> string list option"

definition Has :: "Values \<Rightarrow> string \<Rightarrow> bool" where
  "Has vs key = (vs key \<noteq> None)"

definition ctx_Query :: "Values \<Rightarrow> string \<Rightarrow> string" where
  "ctx_Query vs key = (case vs key of Some (v # _) \<Rightarrow> v | _ \<Rightarrow> [])"

text \<open>
  \<^verbatim>\<open>strings.Split(s, sep)\<close> for a separator of one character, as the handlers call it
  (\<^verbatim>\<open>","\<close>): the pieces between the separators; the empty string gives one empty piece.
\<close>

fun Split :: "string \<Rightarrow> char \<Rightarrow> string list" where
  "Split [] sep = [[]]"
| "Split (c # cs) sep =
    (if c = sep then [] # Split cs sep
     else (case Split cs sep of
             [] \<Rightarrow> [[c]]
           | w # ws \<Rightarrow> (c # w) # ws))"

text \<open>\<^verbatim>\<open>collections.SliceContains\<close>.\<close>

definition SliceContains :: "'a list \<Rightarrow> 'a \<Rightarrow> bool" where
  "SliceContains xs x = (x \<in> set xs)"

text \<open>
  The registry \<^verbatim>\<open>corporaConf.Resources\<close> is a Go map from the corpus names to their
  settings. It is the list of its entries here, their keys distinct, in the order in
  which a \<^verbatim>\<open>range\<close> over the map meets them (an order Go does not fix); a lookup
  \<^verbatim>\<open>Resources[v]\<close> is \<open>map_of\<close>.
\<close>

record Resource =
  DefaultSearchAttr :: string

type_synonym Resources = "(string \<times> Resource) list"

text \<open>
  Modelled from the spec: the method \<^verbatim>\<open>GetCorpora\<close> of the registry is outside the files
  at hand. The spec has \<^verbatim>\<open>getAll()\<close> return the "sorted list of ids".
\<close>

definition GetCorpora :: "Resources \<Rightarrow> string list" where
  "GetCorpora rs = sort (map fst rs)"

text \<open>
  A diagnostic, and what a step of a handler ends in when it stops the request: the
  diagnostic it stores and the status it returns. The codes are constants of the package
  \<^verbatim>\<open>general\<close>, known here by their names.
\<close>

datatype diag_code =
    CodeGeneralSystemError
  | CodeUnsupportedParameterValue
  | DCGeneralSystemError
  | DCUnsupportedParameterValue

record FCSError =
  Code :: diag_code
  Ident :: string
  Message :: string

definition StatusBadRequest :: int where "StatusBadRequest = 400"

text \<open>
  The statuses \<^verbatim>\<open>general.ConformantStatusBadRequest\<close> and
  \<^verbatim>\<open>general.ConformantUnprocessableEntity\<close> are declared outside the files at hand; they
  are kept apart from the plain ones by a datatype.
\<close>

datatype status =
    Http int
  | ConformantStatusBadRequest
  | ConformantUnprocessableEntity

subsection \<open>Choosing the corpora\<close>

text \<open>
  The handler of the second unnamed file (\<^verbatim>\<open>part_001\<close>, the one with the token rows and
  the \<^verbatim>\<open>DC\<close> codes), lines 79 to 105. The test is \<^verbatim>\<open>Has(ctx.Query("x-fcs-context"))\<close>:
  the key looked up is the \<^emph>\<open>value\<close> of the parameter.
\<close>

definition SearchRetrArgFCSContext :: string where
  "SearchRetrArgFCSContext = ''x-fcs-context''"

definition corpora_DC :: "Resources \<Rightarrow> Values \<Rightarrow> (FCSError \<times> status) + string list" where
  "corpora_DC rs q =
    (let corpora = GetCorpora rs;
         corpora = (if Has q (ctx_Query q SearchRetrArgFCSContext)
                    then Split (ctx_Query q SearchRetrArgFCSContext) (CHR '','')
                    else corpora)
     in if length corpora > 0 then
          (case find (\<lambda>v. map_of rs v = None) corpora of
             Some v \<Rightarrow>
               Inl (\<lparr>Code = DCUnsupportedParameterValue, Ident = SearchRetrArgFCSContext,
                     Message = ''Unknown context '' @ v\<rparr>, ConformantStatusBadRequest)
           | None \<Rightarrow> Inr corpora)
        else
          Inl (\<lparr>Code = DCUnsupportedParameterValue, Ident = SearchRetrArgFCSContext,
                Message = ''Empty context''\<rparr>, ConformantStatusBadRequest))"

text \<open>
  The v1.2 handler (\<^verbatim>\<open>handler/v12/handler.go\<close>), lines 119 to 140. The loop over the names
  of the context appends to \<^verbatim>\<open>corpora\<close> and \<^verbatim>\<open>searchAttrs\<close> and stops the request at the
  first unknown name.
\<close>

fun context_loop_v12 ::
    "Resources \<Rightarrow> string list \<Rightarrow> string list \<times> string list
      \<Rightarrow> (FCSError \<times> status) + (string list \<times> string list)" where
  "context_loop_v12 rs [] acc = Inr acc"
| "context_loop_v12 rs (v # vs) (corpora, searchAttrs) =
    (case map_of rs v of
       None \<Rightarrow>
         Inl (\<lparr>Code = CodeUnsupportedParameterValue, Ident = ''x-fcs-context'',
               Message = ''Unknown context '' @ v\<rparr>, Http StatusBadRequest)
     | Some resource \<Rightarrow>
         context_loop_v12 rs vs (corpora @ [v], searchAttrs @ [DefaultSearchAttr resource]))"

definition corpora_v12 ::
    "Resources \<Rightarrow> Values \<Rightarrow> (FCSError \<times> status) + (string list \<times> string list)" where
  "corpora_v12 rs q =
    (if Has q ''x-fcs-context''
     then context_loop_v12 rs (Split (ctx_Query q ''x-fcs-context'') (CHR '','')) ([], [])
     else Inr (map fst rs, map (\<lambda>(corpusName, resource). DefaultSearchAttr resource) rs))"

text \<open>
  The handler of the first unnamed file (\<^verbatim>\<open>part_000\<close>, package \<^verbatim>\<open>handler\<close>), lines 163 to
  181: all the corpora first, then the context, each name tested against that list.
\<close>

definition corpora_handler :: "Resources \<Rightarrow> Values \<Rightarrow> (FCSError \<times> status) + string list" where
  "corpora_handler rs q =
    (let corpora = map fst rs in
     if Has q ''x-fcs-context'' then
       (let fcsContext = Split (ctx_Query q ''x-fcs-context'') (CHR '','') in
        case find (\<lambda>v. \<not> SliceContains corpora v) fcsContext of
          Some v \<Rightarrow>
            Inl (\<lparr>Code = CodeUnsupportedParameterValue, Ident = ''x-fcs-context'',
                  Message = ''Unknown context '' @ v\<rparr>, Http StatusBadRequest)
        | None \<Rightarrow> Inr fcsContext)
     else Inr corpora)"

subsection \<open>Gathering the results\<close>



subsection \<open>Transforming the results into rows\<close>












section \<open>Properties of the adapter\<close>

text \<open>
  Claim C8 (as the code runs). With both channel names left empty in the configuration,
  the adapter built by \<^verbatim>\<open>NewAdapter\<close> has the default result-channel prefix
  \<^verbatim>\<open>mqueryResults\<close>, but its query-notify channel name is the empty string, not
  \<^verbatim>\<open>mqueryQueries\<close>: the default is assigned to a variable local to the branch.
\<close>

theorem NewAdapter_empty_channels:
  "channelResultPrefix (NewAdapter addr
      \<lparr>Host = ''localhost'', Port = 6379, DB = 0, Password = [], ChannelQuery = [],
       ChannelResultPrefix = [], QueryAnswerTimeoutSecs = 0\<rparr>) = ''mqueryResults''
   \<and> channelQuery (NewAdapter addr
      \<lparr>Host = ''localhost'', Port = 6379, DB = 0, Password = [], ChannelQuery = [],
       ChannelResultPrefix = [], QueryAnswerTimeoutSecs = 0\<rparr>) = []
   \<and> channelQuery (NewAdapter addr
      \<lparr>Host = ''localhost'', Port = 6379, DB = 0, Password = [], ChannelQuery = [],
       ChannelResultPrefix = [], QueryAnswerTimeoutSecs = 0\<rparr>) \<noteq> ''mqueryQueries''"
  by (simp add: NewAdapter_def DefaultResultChannelPrefix_def)

text \<open>
  The adapter's query channel is always the configured one, and the result prefix is the
  configured one or the default.
\<close>

lemma NewAdapter_channelQuery: "channelQuery (NewAdapter addr cnf) = ChannelQuery cnf"
  by (simp add: NewAdapter_def Let_def)

lemma NewAdapter_channelResultPrefix:
  "channelResultPrefix (NewAdapter addr cnf) =
     (if ChannelResultPrefix cnf = [] then ''mqueryResults'' else ChannelResultPrefix cnf)"
  by (simp add: NewAdapter_def Let_def DefaultResultChannelPrefix_def)

text \<open>
  Claim C10. \<^verbatim>\<open>DequeueQuery\<close> returns \<^verbatim>\<open>ErrorEmptyQueue\<close> whenever the value of the
  \<^verbatim>\<open>RPOP\<close> command is the empty string, whatever the command's error is (also when the
  command failed); and whenever it returns the wrapped transport error
  ("failed to dequeue query"), the popped payload is not empty and the command failed with
  the wrapped error.
\<close>

theorem DequeueQuery_empty_value:
  fixes cmd :: StringCmd
  shows "(Val cmd = [] \<longrightarrow> DequeueQuery gob_dec cmd = (zero_Query, Some ErrorEmptyQueue))
   \<and> (DequeueQuery gob_dec cmd = (q, Some (Errorf_w ''failed to dequeue query'' e))
        \<longrightarrow> Val cmd \<noteq> [] \<and> Err cmd = Some e)"
proof (rule conjI; rule impI)
  assume "Val cmd = []"
  then show "DequeueQuery gob_dec cmd = (zero_Query, Some ErrorEmptyQueue)"
    by (simp add: DequeueQuery_def)
next
  assume r: "DequeueQuery gob_dec cmd = (q, Some (Errorf_w ''failed to dequeue query'' e))"
  show "Val cmd \<noteq> [] \<and> Err cmd = Some e"
  proof (cases "Val cmd = []")
    case True
    with r show ?thesis
      by (simp add: DequeueQuery_def ErrorEmptyQueue_def Errorf_w_def)
  next
    case False
    with r show ?thesis
      by (auto simp: DequeueQuery_def Errorf_w_def split: option.splits prod.splits)
  qed
qed

theorem DequeueQuery_empty_value_witness:
  "DequeueQuery (\<lambda>s. (zero_Query, None))
      \<lparr>Val = [], Err = Some (foreignError ''*net.OpError'' ''connection refused'')\<rparr>
     = (zero_Query, Some ErrorEmptyQueue)
   \<and> DequeueQuery (\<lambda>s. (zero_Query, None))
      \<lparr>Val = ''x'', Err = Some (foreignError ''*net.OpError'' ''connection refused'')\<rparr>
     = (zero_Query, Some (Errorf_w ''failed to dequeue query''
          (foreignError ''*net.OpError'' ''connection refused'')))"
proof -
  let ?e = "foreignError ''*net.OpError'' ''connection refused''"
  let ?d = "\<lambda>s::string. (zero_Query, None :: error option)"
  have a: "DequeueQuery ?d \<lparr>Val = [], Err = Some ?e\<rparr> = (zero_Query, Some ErrorEmptyQueue)"
    using DequeueQuery_empty_value [of "\<lparr>Val = [], Err = Some ?e\<rparr>" ?d zero_Query ?e]
    by simp
  have b: "DequeueQuery ?d \<lparr>Val = ''x'', Err = Some ?e\<rparr>
      = (zero_Query, Some (Errorf_w ''failed to dequeue query'' ?e))"
    by (simp add: DequeueQuery_def)
  from a b show ?thesis by simp
qed


subsection \<open>PublishResult\<close>

text \<open>
  Claim C9. When the result carries an error \<open>e\<close>, of whatever type, \<^verbatim>\<open>PublishResult\<close>
  replaces it by the \<^verbatim>\<open>TransmittedError\<close> made of the text of \<open>e\<close> and the name of its dynamic
  type before it encodes the result: the value given to the encoder, and left behind the
  pointer, is the result with that error; when the encoder succeeds, its bytes are what
  \<^verbatim>\<open>SET\<close> stores under the channel name. So what is stored depends on \<open>e\<close> through its text
  and its type name only: two errors with the same text and type name give the same
  commands, the same stored value and the same outcome.
\<close>

theorem PublishResult_transmits_error:
  assumes "Error v = Some e"
  shows "PublishResult gob_enc publish_err channelName v =
      (case gob_enc (v\<lparr>Error := Some (TransmittedError (Error_text e) (Type_name e))\<rparr>) of
         Inl err \<Rightarrow>
           ([], v\<lparr>Error := Some (TransmittedError (Error_text e) (Type_name e))\<rparr>,
            Some (Errorf_w ''failed to serialize (GOB) result'' err))
       | Inr msg \<Rightarrow>
           ([Set channelName msg DefaultResultExpiration, Publish channelName channelName],
            v\<lparr>Error := Some (TransmittedError (Error_text e) (Type_name e))\<rparr>, publish_err))
    \<and> (gob_enc (v\<lparr>Error := Some (TransmittedError (Error_text e) (Type_name e))\<rparr>) = Inr msg \<longrightarrow>
      store (foldl redis_exec b (fst (PublishResult gob_enc publish_err channelName v))) channelName
        = Some msg)
    \<and> (Error_text e' = Error_text e \<and> Type_name e' = Type_name e \<longrightarrow>
      PublishResult gob_enc publish_err channelName (v\<lparr>Error := Some e'\<rparr>)
        = PublishResult gob_enc publish_err channelName v)"
  using assms by (auto simp: PublishResult_def split: sum.splits)

theorem PublishResult_transmits_error_witness:
  "PublishResult (\<lambda>v. Inr (case Error v of None \<Rightarrow> ''ok'' | Some e \<Rightarrow> Error_text e)) None
      ''mqueryResults:1''
      \<lparr>Lines = [], ConcSize = 0, Query = ''dog'', Error = Some (TimeoutError ''late'')\<rparr>
    = ([Set ''mqueryResults:1'' ''TransmittedError(rdb.TimeoutError: late)'' 600,
        Publish ''mqueryResults:1'' ''mqueryResults:1''],
       \<lparr>Lines = [], ConcSize = 0, Query = ''dog'',
         Error = Some (TransmittedError ''late'' ''rdb.TimeoutError'')\<rparr>,
       None)"
proof -
  let ?v = "\<lparr>Lines = [], ConcSize = 0, Query = ''dog'', Error = Some (TimeoutError ''late'')\<rparr>"
  let ?enc = "\<lambda>v. Inr (case Error v of None \<Rightarrow> ''ok'' | Some e \<Rightarrow> Error_text e) :: error + string"
  have h: "Error ?v = Some (TimeoutError ''late'')" by simp
  from PublishResult_transmits_error [OF h, of ?enc None "''mqueryResults:1''"]
  show ?thesis by (simp add: DefaultResultExpiration_def)
qed

text \<open>A result without an error is encoded and stored as it is.\<close>

lemma PublishResult_no_error:
  "Error v = None \<Longrightarrow> gob_enc v = Inr msg \<Longrightarrow>
   PublishResult gob_enc publish_err channelName v =
     ([Set channelName msg DefaultResultExpiration, Publish channelName channelName], v, publish_err)"
  by (simp add: PublishResult_def)

subsection \<open>PublishQuery\<close>

text \<open>
  Claim C7. In every run of \<^verbatim>\<open>PublishQuery\<close>, whatever the encoder and the commands
  answer: each \<^verbatim>\<open>LPUSH\<close> among the commands sent has the \<^verbatim>\<open>SUBSCRIBE\<close> to the job's reply
  channel (prefix, colon, uuid) strictly before it; the \<^verbatim>\<open>LPUSH\<close> is on the queue key and
  carries the encoded job; the commands start with that \<^verbatim>\<open>SUBSCRIBE\<close> followed by the
  \<^verbatim>\<open>LPUSH\<close>, and in whatever state the broker was before them, a notification published on
  the reply channel right after them is delivered to the subscription. A run that returns
  a wait channel has sent \<^verbatim>\<open>SUBSCRIBE\<close>, \<^verbatim>\<open>LPUSH\<close> and the \<^verbatim>\<open>PUBLISH\<close> of the new query, in
  this order. The client's calls are taken as the commands, in the order of the calls.
\<close>

theorem PublishQuery_subscribes_before_LPush:
  assumes "PublishQuery gob_enc uuid lpush_err publish_err a query = (cmds, wait, err)"
  shows "(\<forall>j<length cmds. \<forall>k m. cmds ! j = LPush k m \<longrightarrow>
            (\<exists>i<j. cmds ! i = Subscribe (channelResultPrefix a @ '':'' @ uuid)))
       \<and> (\<forall>k m. LPush k m \<in> set cmds \<longrightarrow>
            k = DefaultQueueKey \<and>
            gob_enc (query\<lparr>Channel := channelResultPrefix a @ '':'' @ uuid\<rparr>) = Inr m \<and>
            take 2 cmds = [Subscribe (channelResultPrefix a @ '':'' @ uuid), LPush k m] \<and>
            (\<forall>b payload.
               (channelResultPrefix a @ '':'' @ uuid, payload)
                 \<in> set (delivered (redis_exec (foldl redis_exec b (take 2 cmds))
                      (Publish (channelResultPrefix a @ '':'' @ uuid) payload)))))
       \<and> (wait \<noteq> None \<longrightarrow>
            wait = Some (channelResultPrefix a @ '':'' @ uuid) \<and>
            (\<exists>m. cmds = [Subscribe (channelResultPrefix a @ '':'' @ uuid), LPush DefaultQueueKey m,
                         Publish (channelQuery a) MsgNewQuery]))"
proof (cases "gob_enc (query\<lparr>Channel := channelResultPrefix a @ '':'' @ uuid\<rparr>)")
  case (Inl e)
  with assms have "cmds = []" and "wait = None"
    by (auto simp: PublishQuery_def Let_def)
  then show ?thesis by simp
next
  case (Inr msg)
  let ?ch = "channelResultPrefix a @ '':'' @ uuid"
  from Inr assms have c: "take 2 cmds = [Subscribe ?ch, LPush DefaultQueueKey msg]"
    and l: "cmds = [Subscribe ?ch, LPush DefaultQueueKey msg] \<or>
            cmds = [Subscribe ?ch, LPush DefaultQueueKey msg, Publish (channelQuery a) MsgNewQuery]"
    and w: "wait \<noteq> None \<longrightarrow> wait = Some ?ch \<and>
            cmds = [Subscribe ?ch, LPush DefaultQueueKey msg, Publish (channelQuery a) MsgNewQuery]"
    by (auto simp: PublishQuery_def Let_def split: option.splits)
  have 1: "\<forall>j<length cmds. \<forall>k m. cmds ! j = LPush k m \<longrightarrow> (\<exists>i<j. cmds ! i = Subscribe ?ch)"
  proof (intro allI impI)
    fix j k m
    assume j: "j < length cmds" and e: "cmds ! j = LPush k m"
    from l j e have "j = 1"
      by (auto simp: nth_Cons' less_Suc_eq split: if_splits)
    with l show "\<exists>i<j. cmds ! i = Subscribe ?ch" by auto
  qed
  have 2: "\<forall>k m. LPush k m \<in> set cmds \<longrightarrow>
            k = DefaultQueueKey \<and> gob_enc (query\<lparr>Channel := ?ch\<rparr>) = Inr m \<and>
            take 2 cmds = [Subscribe ?ch, LPush k m] \<and>
            (\<forall>b payload. (?ch, payload)
                 \<in> set (delivered (redis_exec (foldl redis_exec b (take 2 cmds)) (Publish ?ch payload))))"
    using l c Inr by auto
  from 1 2 w show ?thesis by blast
qed


theorem PublishQuery_subscribes_before_LPush_witness:
  "PublishQuery (\<lambda>q. Inr (Channel q @ ''|'' @ Func q)) ''u1'' None None
      \<lparr>conf = \<lparr>Host = ''localhost'', Port = 6379, DB = 0, Password = [], ChannelQuery = ''mqueryQueries'',
                ChannelResultPrefix = ''mqueryResults'', QueryAnswerTimeoutSecs = 60\<rparr>,
        redis_addr = ''localhost:6379'', channelQuery = ''mqueryQueries'',
        channelResultPrefix = ''mqueryResults'', queryAnswerTimeout = 60\<rparr>
      \<lparr>Channel = [], Func = ''concExample'', Args = zero_ConcQueryArgs\<rparr>
    = ([Subscribe ''mqueryResults:u1'', LPush ''mqueryQueue'' ''mqueryResults:u1|concExample'',
        Publish ''mqueryQueries'' ''newQuery''],
       Some ''mqueryResults:u1'', None)
   \<and> (''mqueryResults:u1'', ''mqueryResults:u1'')
        \<in> set (delivered (redis_exec
             (foldl redis_exec
                \<lparr>subscribed = [], delivered = [], lists = (\<lambda>k. []), store = (\<lambda>k. None)\<rparr>
                [Subscribe ''mqueryResults:u1'', LPush ''mqueryQueue'' ''mqueryResults:u1|concExample''])
             (Publish ''mqueryResults:u1'' ''mqueryResults:u1'')))"
proof -
  let ?enc = "\<lambda>q. Inr (Channel q @ ''|'' @ Func q) :: error + string"
  let ?a = "\<lparr>conf = \<lparr>Host = ''localhost'', Port = 6379, DB = 0, Password = [], ChannelQuery = ''mqueryQueries'',
                ChannelResultPrefix = ''mqueryResults'', QueryAnswerTimeoutSecs = 60\<rparr>,
        redis_addr = ''localhost:6379'', channelQuery = ''mqueryQueries'',
        channelResultPrefix = ''mqueryResults'', queryAnswerTimeout = 60\<rparr>"
  let ?q = "\<lparr>Channel = [], Func = ''concExample'', Args = zero_ConcQueryArgs\<rparr>"
  let ?cmds = "[Subscribe ''mqueryResults:u1'', LPush ''mqueryQueue'' ''mqueryResults:u1|concExample'',
        Publish ''mqueryQueries'' ''newQuery'']"
  let ?b = "\<lparr>subscribed = [], delivered = [], lists = (\<lambda>k. []), store = (\<lambda>k. None)\<rparr>"
  have e: "PublishQuery ?enc ''u1'' None None ?a ?q = (?cmds, Some ''mqueryResults:u1'', None)"
    by (simp add: PublishQuery_def DefaultQueueKey_def MsgNewQuery_def)
  have m: "LPush ''mqueryQueue'' ''mqueryResults:u1|concExample'' \<in> set ?cmds" by simp
  have t: "take 2 ?cmds = [Subscribe ''mqueryResults:u1'', LPush ''mqueryQueue'' ''mqueryResults:u1|concExample'']"
    by simp
  from PublishQuery_subscribes_before_LPush [OF e] m
  have "\<forall>b payload. (channelResultPrefix ?a @ '':'' @ ''u1'', payload)
      \<in> set (delivered (redis_exec (foldl redis_exec b (take 2 ?cmds))
            (Publish (channelResultPrefix ?a @ '':'' @ ''u1'') payload)))"
    by blast
  then have "(channelResultPrefix ?a @ '':'' @ ''u1'', ''mqueryResults:u1'')
      \<in> set (delivered (redis_exec (foldl redis_exec ?b (take 2 ?cmds))
            (Publish (channelResultPrefix ?a @ '':'' @ ''u1'') ''mqueryResults:u1'')))"
    by blast
  with t have "(''mqueryResults:u1'', ''mqueryResults:u1'')
      \<in> set (delivered (redis_exec
            (foldl redis_exec ?b
               [Subscribe ''mqueryResults:u1'', LPush ''mqueryQueue'' ''mqueryResults:u1|concExample''])
            (Publish ''mqueryResults:u1'' ''mqueryResults:u1'')))"
    by simp
  with e show ?thesis by simp
qed

text \<open>Were the job pushed first, a notification published at once would be lost.\<close>

lemma LPush_before_Subscribe_loses:
  "delivered (foldl redis_exec
      \<lparr>subscribed = [], delivered = [], lists = (\<lambda>k. []), store = (\<lambda>k. None)\<rparr>
      [LPush k m, Publish ch p, Subscribe ch]) = []"
  by simp

subsection \<open>The task that waits for the answer\<close>

text \<open>
  Claim C2 (as the code runs). The case \<^verbatim>\<open><-ctx3.Done()\<close> of the task sends the timeout
  result and does not return, unlike the two other cases: the loop goes on, and the
  context being done for good, the case is taken again. With no answer from a worker the
  task sends the timeout result a second time (and the wait channel is never closed);
  with an answer that comes after the timeout it sends the timeout result and then the
  answer. A consumer that receives twice gets two results for one job.
\<close>

theorem waiter_timeout_sends_again:
  "waiter redis_get gob_dec zero_ConcResult [ctx3_Done, ctx3_Done]
     = ([zero_ConcResult\<lparr>Error := Some (errorString ''waiting for worker response timeout'')\<rparr>,
         zero_ConcResult\<lparr>Error := Some (errorString ''waiting for worker response timeout'')\<rparr>],
        Blocked)
   \<and> waiter (\<lambda>k. \<lparr>Val = ''payload'', Err = None\<rparr>)
        (\<lambda>p ans. (ans\<lparr>ConcSize := 1, Query := ''dog''\<rparr>, None)) zero_ConcResult
        [ctx3_Done, Received True ''mqueryResults:u1'']
     = ([zero_ConcResult\<lparr>Error := Some (errorString ''waiting for worker response timeout'')\<rparr>,
         zero_ConcResult\<lparr>ConcSize := 1, Query := ''dog'',
           Error := Some (errorString ''waiting for worker response timeout'')\<rparr>],
        Returned)"
  by (simp add: zero_ConcResult_def Let_def)

text \<open>
  As many timeout results as the consumer cares to receive; exactly one result and a
  closed channel when a message is received first; no result and a closed channel when
  the cancellation is met first.
\<close>

lemma waiter_timeouts:
  "waiter redis_get gob_dec ans (replicate n ctx3_Done) =
     (replicate n (ans\<lparr>Error := Some (errorString ''waiting for worker response timeout'')\<rparr>),
      Blocked)"
  by (induction n arbitrary: ans) (simp_all add: Let_def)

lemma waiter_message_first:
  "\<exists>r. waiter redis_get gob_dec ans (Received True payload # cases) = ([r], Returned)"
  by (simp add: Let_def)

lemma waiter_cancelled_first:
  "waiter redis_get gob_dec ans (ctx_Done # cases) = ([], Returned)"
  by simp

section \<open>Properties of the query translator\<close>

subsection \<open>The keywords of the within clause\<close>

text \<open>
  Claim C6, amended. \<^verbatim>\<open>TranslateWithinCtx\<close> maps the keywords by the table
  sentence, s to s; utterance, u to u; paragraph, p to p; turn, t to t; text to doc;
  session to session. For every other input it returns \<^verbatim>\<open>??\<close>. In every case it leaves the
  transformer as it was: no error is added to the list of accumulated errors.
\<close>

theorem TranslateWithinCtx_table:
  "TranslateWithinCtx t ''sentence'' = (''s'', t) \<and> TranslateWithinCtx t ''s'' = (''s'', t)
   \<and> TranslateWithinCtx t ''utterance'' = (''u'', t) \<and> TranslateWithinCtx t ''u'' = (''u'', t)
   \<and> TranslateWithinCtx t ''paragraph'' = (''p'', t) \<and> TranslateWithinCtx t ''p'' = (''p'', t)
   \<and> TranslateWithinCtx t ''turn'' = (''t'', t) \<and> TranslateWithinCtx t ''t'' = (''t'', t)
   \<and> TranslateWithinCtx t ''text'' = (''doc'', t)
   \<and> TranslateWithinCtx t ''session'' = (''session'', t)
   \<and> (v \<notin> {''sentence'', ''s'', ''utterance'', ''u'', ''paragraph'', ''p'', ''turn'', ''t'',
             ''text'', ''session''}
        \<longrightarrow> TranslateWithinCtx t v = (''??'', t) \<and> Errors (snd (TranslateWithinCtx t v)) = Errors t)"
  by (simp add: TranslateWithinCtx_def)

theorem TranslateWithinCtx_table_witness:
  "''clause'' \<notin> {''sentence'', ''s'', ''utterance'', ''u'', ''paragraph'', ''p'', ''turn'', ''t'',
             ''text'', ''session''}
   \<and> TranslateWithinCtx \<lparr>input = [], parseResult = nilNode, defaultAttr = [], errors = []\<rparr> ''clause''
       = (''??'', \<lparr>input = [], parseResult = nilNode, defaultAttr = [], errors = []\<rparr>)
   \<and> TranslateWithinCtx \<lparr>input = [], parseResult = nilNode, defaultAttr = [], errors = []\<rparr> ''text''
       = (''doc'', \<lparr>input = [], parseResult = nilNode, defaultAttr = [], errors = []\<rparr>)"
proof -
  have n: "''clause'' \<notin> {''sentence'', ''s'', ''utterance'', ''u'', ''paragraph'', ''p'', ''turn'',
      ''t'', ''text'', ''session''}"
    by simp
  from TranslateWithinCtx_table
    [of "\<lparr>input = [], parseResult = nilNode, defaultAttr = [], errors = []\<rparr>" "''clause''"] n
  show ?thesis by blast
qed

text \<open>
  Claim C6 as stated fails: for the keyword \<^verbatim>\<open>clause\<close>, which is not in the table, the
  method returns \<^verbatim>\<open>??\<close> and the list of accumulated errors is empty afterwards, as it was
  before. Nothing has been appended.
\<close>

theorem TranslateWithinCtx_unknown_adds_no_error:
  "fst (TranslateWithinCtx \<lparr>input = [], parseResult = nilNode, defaultAttr = [], errors = []\<rparr>
          ''clause'') = ''??''
   \<and> Errors (snd (TranslateWithinCtx
          \<lparr>input = [], parseResult = nilNode, defaultAttr = [], errors = []\<rparr> ''clause'')) = []"
  by (simp add: TranslateWithinCtx_def Errors_def)

subsection \<open>Parsing\<close>

text \<open>
  Claim C4 (as the code runs). The inputs \<^verbatim>\<open>a AND b\<close> and \<^verbatim>\<open>a  AND  b\<close> give the same
  tree, the conjunction of the terms \<^verbatim>\<open>a\<close> and \<^verbatim>\<open>b\<close>. The input \<^verbatim>\<open>a AND (b)\<close> does not: its
  right operand is the term \<^verbatim>\<open>(b)\<close>, parentheses included, and no \<^verbatim>\<open>parenNode\<close>. The
  expression \<^verbatim>\<open>^[\S]*\<close> of the lexer matches the parentheses with the word, so the tokens
  \<^verbatim>\<open>'('\<close> and \<^verbatim>\<open>')'\<close> of the grammar never leave the lexer.
\<close>

theorem parse_parenthesised_operand:
  "NewBasicTransformer ''a AND b'' ''word''
     = Some (Returns (Some \<lparr>input = [], parseResult =
          rootNode (binaryNode ''AND'' (termNode ''a'') (termNode ''b'')),
          defaultAttr = [], errors = []\<rparr>, None))
   \<and> NewBasicTransformer ''a  AND  b'' ''word''
     = Some (Returns (Some \<lparr>input = [], parseResult =
          rootNode (binaryNode ''AND'' (termNode ''a'') (termNode ''b'')),
          defaultAttr = [], errors = []\<rparr>, None))
   \<and> NewBasicTransformer ''a AND (b)'' ''word''
     = Some (Returns (Some \<lparr>input = [], parseResult =
          rootNode (binaryNode ''AND'' (termNode ''a'') (termNode ''(b)'')),
          defaultAttr = [], errors = []\<rparr>, None))"
  by code_simp

text \<open>
  No row of the table has a column for \<^verbatim>\<open>error\<close>, so the error recovery never finds a state
  to resume in: a syntax error ends the parse.
\<close>

lemma index_yyParseTab_length:
  "index yyParseTab s = Some row \<Longrightarrow> length row \<le> 10"
proof -
  assume a: "index yyParseTab s = Some row"
  then have "row \<in> set yyParseTab"
    by (auto simp: index_def split: if_splits)
  then show ?thesis by (auto simp: yyParseTab_def)
qed

lemma find_error_shift_no_hit: "find_error_shift S k \<noteq> Returns (Some hit)"
proof (induction k)
  case 0
  then show ?case by simp
next
  case (Suc p)
  show ?case
  proof (cases "index yyParseTab (yys (S p))")
    case None
    then show ?thesis by simp
  next
    case (Some row)
    with index_yyParseTab_length [OF Some] Suc show ?thesis by simp
  qed
qed

lemma yystack_keeps:
  "yystack c = Returns c' \<Longrightarrow> yylex c' = yylex c \<and> Errflag c' = Errflag c"
  by (auto simp: yystack_def Let_def split: if_splits)

lemma Lex_errors: "Lex t lval = (n, t', lval') \<Longrightarrow> errors t' = errors t"
  by (auto simp: Lex_def Let_def split: if_splits option.splits prod.splits)

lemma read_token_keeps:
  "errors (yylex (read_token c)) = errors (yylex c) \<and> Errflag (read_token c) = Errflag c"
  by (auto simp: read_token_def yylex1_def split: prod.splits dest: Lex_errors)

lemma reduce_keeps:
  "reduce c n = Returns c' \<Longrightarrow> errors (yylex c') = errors (yylex c) \<and> Errflag c' = Errflag c"
  by (auto simp: reduce_def Let_def split: prod.splits option.splits if_splits)


lemma yynewstate_clean:
  assumes "errors (yylex c0) = []" and "Errflag c0 = 0" and "yynewstate c0 = Inl lc'"
  shows "clean lc'"
proof -
  let ?c = "read_token c0"
  have k: "errors (yylex ?c) = [] \<and> Errflag ?c = 0"
    using assms(1,2) read_token_keeps [of c0] by simp
  from assms(3) obtain yyn where a: "action ?c = Returns yyn"
    by (auto simp: yynewstate_def Let_def split: outcome.splits)
  from assms(3) a k show ?thesis
    by (auto simp: yynewstate_def Let_def clean_def find_error_shift_no_hit
        split: outcome.splits if_splits option.splits dest: reduce_keeps)
qed

lemma yystep_clean:
  assumes "clean lc" and "yystep lc = Inl lc'"
  shows "clean lc'"
proof (cases "fst lc")
  case L_yystack
  with assms(2) obtain c0 where c0: "yystack (snd lc) = Returns c0" and n: "yynewstate c0 = Inl lc'"
    by (auto simp: yystep_def split: outcome.splits)
  from yystack_keeps [OF c0] assms(1) have "errors (yylex c0) = []" and "Errflag c0 = 0"
    by (simp_all add: clean_def)
  then show ?thesis using n by (rule yynewstate_clean)
next
  case L_yynewstate
  with assms(2) have n: "yynewstate (snd lc) = Inl lc'"
    by (simp add: yystep_def)
  from assms(1) have "errors (yylex (snd lc)) = []" and "Errflag (snd lc) = 0"
    by (simp_all add: clean_def)
  then show ?thesis using n by (rule yynewstate_clean)
qed

lemma yynewstate_verdict:
  assumes "errors (yylex c0) = []" and "Errflag c0 = 0" and "yynewstate c0 = Inr res"
  shows "verdict res"
proof (cases res)
  case Panics
  then show ?thesis by (simp add: verdict_def)
next
  case (Returns ct)
  let ?c = "read_token c0"
  have k: "errors (yylex ?c) = [] \<and> Errflag ?c = 0"
    using assms(1,2) read_token_keeps [of c0] by simp
  from assms(3) Returns obtain yyn where a: "action ?c = Returns yyn"
    by (auto simp: yynewstate_def Let_def split: outcome.splits)
  from assms(3) a k Returns show ?thesis
    by (auto simp: yynewstate_def Let_def verdict_def yylex_Error_def AddError_def
        split: outcome.splits if_splits option.splits)
qed

lemma yystep_verdict:
  assumes "clean lc" and "yystep lc = Inr res"
  shows "verdict res"
proof (cases "fst lc")
  case L_yystack
  show ?thesis
  proof (cases "yystack (snd lc)")
    case Panics
    with L_yystack assms(2) have "res = Panics" by (simp add: yystep_def)
    then show ?thesis by (simp add: verdict_def)
  next
    case (Returns c0)
    with L_yystack assms(2) have n: "yynewstate c0 = Inr res" by (simp add: yystep_def)
    from yystack_keeps [OF Returns] assms(1) have "errors (yylex c0) = []" and "Errflag c0 = 0"
      by (simp_all add: clean_def)
    then show ?thesis using n by (rule yynewstate_verdict)
  qed
next
  case L_yynewstate
  with assms(2) have n: "yynewstate (snd lc) = Inr res"
    by (simp add: yystep_def)
  from assms(1) have "errors (yylex (snd lc)) = []" and "Errflag (snd lc) = 0"
    by (simp_all add: clean_def)
  then show ?thesis using n by (rule yynewstate_verdict)
qed

lemma yyrun_verdict:
  assumes run: "yyrun lc = Some res" and cl: "clean lc"
  shows "verdict res"
proof -
  have "clean lc \<longrightarrow> verdict res"
  proof (rule yyrun.raw_induct [where P = "\<lambda>lc res. clean lc \<longrightarrow> verdict res", OF _ run])
    fix f lc res
    assume ih: "\<And>x y. f x = Some y \<Longrightarrow> clean x \<longrightarrow> verdict y"
      and st: "(case yystep lc of Inl lc' \<Rightarrow> f lc' | Inr res \<Rightarrow> Some res) = Some res"
    show "clean lc \<longrightarrow> verdict res"
    proof
      assume c: "clean lc"
      show "verdict res"
      proof (cases "yystep lc")
        case (Inl lc')
        with st have "f lc' = Some res" by simp
        from ih [OF this] yystep_clean [OF c Inl] show ?thesis by simp
      next
        case (Inr r)
        with st have "r = res" by simp
        with yystep_verdict [OF c Inr] show ?thesis by simp
      qed
    qed
  qed
  with cl show ?thesis by simp
qed


lemma clean_init: "clean (L_yystack, yyParser_init \<lparr>input = inp, parseResult = nilNode, defaultAttr = [], errors = []\<rparr>)"
  by (simp add: clean_def yyParser_init_def)

text \<open>
  The parser returns on every input. First the table: every entry is among \<open>entries\<close>, so
  what the proof needs of the table is read off the evaluated lists.
\<close>

lemma index_enumerate: "index xs i = Some v \<Longrightarrow> (nat i, v) \<in> set (enumerate 0 xs) \<and> int (nat i) = i"
  by (auto simp: index_def in_set_enumerate_eq split: if_splits)

lemma tab_entry:
  assumes "index yyParseTab p = Some row" and "index row x = Some e"
  shows "(p, x, e) \<in> set entries"
proof -
  from index_enumerate [OF assms(1)] have a: "(nat p, row) \<in> set (enumerate 0 yyParseTab)" and p: "int (nat p) = p"
    by simp_all
  from index_enumerate [OF assms(2)] have b: "(nat x, e) \<in> set (enumerate 0 row)" and x: "int (nat x) = x"
    by simp_all
  from b have "(int (nat p), int (nat x), e) \<in> set (map (\<lambda>(x, e). (int (nat p), int x, e)) (enumerate 0 row))"
    by force
  with a p x show ?thesis
    unfolding entries_def by force
qed

lemma edges_eval:
  "edges = [(0,4),(0,2),(0,5),(0,3),(0,1),(2,7),(2,8),(2,9),(4,4),(4,13),(4,5),(4,3),
            (5,4),(5,6),(5,5),(5,3),(7,4),(7,12),(7,5),(7,3),(8,4),(8,11),(8,5),(8,3),
            (9,4),(9,10),(9,5),(9,3),(13,7),(13,8),(13,9),(13,14)]"
  by code_simp

lemma edge_cases:
  "edge p s \<Longrightarrow>
     (p, s) \<in> set [(0,4),(0,2),(0,5),(0,3),(0,1),(2,7),(2,8),(2,9),(4,4),(4,13),(4,5),(4,3),
            (5,4),(5,6),(5,5),(5,3),(7,4),(7,12),(7,5),(7,3),(8,4),(8,11),(8,5),(8,3),
            (9,4),(9,10),(9,5),(9,3),(13,7),(13,8),(13,9),(13,14)]"
proof -
  assume "edge p s"
  then obtain row x e where "index yyParseTab p = Some row" "index row x = Some e" and e: "8 < e" and s: "s = int e - 8"
    unfolding edge_def by blast
  then have "(p, x, e) \<in> set entries" by (simp add: tab_entry)
  with e s have "(p, s) \<in> set edges"
    unfolding edges_def by force
  then show ?thesis by (simp only: edges_eval)
qed

lemma valid_pop:
  "valid (s # rest) \<Longrightarrow> s \<noteq> 0 \<Longrightarrow> \<exists>p rest'. rest = p # rest' \<and> edge p s \<and> valid (p # rest')"
  by (cases rest) auto

lemma valid_in_table: "valid ps \<Longrightarrow> s \<in> set ps \<Longrightarrow> 0 \<le> s \<and> s < 15"
proof (induction ps rule: valid.induct)
  case 1
  then show ?case by simp
next
  case (2 s')
  then show ?case by simp
next
  case (3 s' p rest)
  from 3(2) have e: "edge p s'" and v: "valid (p # rest)" by simp_all
  from edge_cases [OF e] have "0 \<le> s' \<and> s' < 15" by auto
  with 3 v show ?case by auto
qed

lemma index_in_table: "0 \<le> s \<Longrightarrow> s < 15 \<Longrightarrow> \<exists>row. index yyParseTab s = Some row"
  by (simp add: index_def yyParseTab_def)

lemma pop1:
  assumes "valid (s # rest)" and "s = 3"
  shows "\<exists>b rest'. rest = b # rest' \<and> has_goto b \<and> valid (b # rest')"
proof -
  from valid_pop [OF assms(1)] assms(2) obtain b rest' where r: "rest = b # rest'" and e: "edge b s" and v: "valid (b # rest')"
    by auto
  from edge_cases [OF e] assms(2) have "has_goto b" by (auto simp: has_goto_def)
  with r v show ?thesis by blast
qed

lemma pop1_start:
  assumes "valid (s # rest)" and "s = 2"
  shows "\<exists>rest'. rest = 0 # rest' \<and> valid (0 # rest')"
proof -
  from valid_pop [OF assms(1)] assms(2) obtain b rest' where r: "rest = b # rest'" and e: "edge b s" and v: "valid (b # rest')"
    by auto
  from edge_cases [OF e] assms(2) have "b = 0" by auto
  with r v show ?thesis by blast
qed

lemma pop2:
  assumes "valid (s # rest)" and "s = 6"
  shows "\<exists>a b rest'. rest = a # b # rest' \<and> has_goto b \<and> valid (b # rest')"
proof -
  from valid_pop [OF assms(1)] assms(2) obtain a r1 where r: "rest = a # r1" and e: "edge a s" and v: "valid (a # r1)"
    by auto
  from edge_cases [OF e] assms(2) have a: "a = 5" by auto
  from valid_pop [OF v] a obtain b rest' where r1: "r1 = b # rest'" and e1: "edge b a" and v1: "valid (b # rest')"
    by auto
  from edge_cases [OF e1] a have "has_goto b" by (auto simp: has_goto_def)
  with r r1 v1 show ?thesis by blast
qed

lemma pop3:
  assumes "valid (s # rest)" and "s = 10 \<or> s = 11 \<or> s = 12 \<or> s = 14"
  shows "\<exists>a a' b rest'. rest = a # a' # b # rest' \<and> has_goto b \<and> valid (b # rest')"
proof -
  from valid_pop [OF assms(1)] assms(2) obtain a r1 where r: "rest = a # r1" and e: "edge a s" and v: "valid (a # r1)"
    by auto
  from edge_cases [OF e] assms(2) have a: "a = 9 \<or> a = 8 \<or> a = 7 \<or> a = 13" by auto
  from valid_pop [OF v] a obtain a' r2 where r1: "r1 = a' # r2" and e1: "edge a' a" and v1: "valid (a' # r2)"
    by auto
  from edge_cases [OF e1] a have a': "a' = 2 \<or> a' = 13 \<or> a' = 4" by auto
  from valid_pop [OF v1] a' obtain b rest' where r2: "r2 = b # rest'" and e2: "edge b a'" and v2: "valid (b # rest')"
    by auto
  from edge_cases [OF e2] a' have "has_goto b" by (auto simp: has_goto_def)
  with r r1 r2 v2 show ?thesis by blast
qed

lemma goto_node:
  assumes "has_goto b"
  shows "\<exists>row g. index yyParseTab b = Some row \<and> index row 6 = Some g \<and> 8 < g \<and> int g - 8 \<noteq> 3
           \<and> int g - 8 \<noteq> 1"
  using assms by (auto simp: has_goto_def index_def yyParseTab_def)

lemma goto_start:
  "\<exists>row. index yyParseTab 0 = Some row \<and> index row 9 = Some 9"
  by (simp add: index_def yyParseTab_def)

lemma reduces_eval: "reduces = [(2,7),(3,6),(6,4),(10,1),(11,2),(12,3),(14,5)]"
  by code_simp

lemma reduce_cases:
  assumes "index yyParseTab p = Some row" and "index row x = Some e" and "0 < e" and "e < 8"
  shows "(p, e) \<in> set [(2,7),(3,6),(6,4),(10,1),(11,2),(12,3),(14,5)]"
proof -
  from assms(1,2) have "(p, x, e) \<in> set entries" by (rule tab_entry)
  with assms(3,4) have "(p, e) \<in> set reduces"
    unfolding reduces_def by force
  then show ?thesis by (simp only: reduces_eval)
qed

lemma column0_le: "list_all (\<lambda>e. e \<le> 8) column0"
  by code_simp

lemma no_shift_at_end:
  assumes "index yyParseTab p = Some row" and "index row 0 = Some e"
  shows "e \<le> 8"
proof -
  from assms have "(p, 0, e) \<in> set entries" by (rule tab_entry)
  then have "e \<in> set column0"
    unfolding column0_def by force
  with column0_le show ?thesis by (simp add: list_all_iff)
qed

lemma xlat_range: "0 \<le> xlat n \<and> (xlat n = 0 \<longleftrightarrow> n = yyEofCode)"
  by (simp add: xlat_def yyXLAT_def yySymNames_def yyEofCode_def)

lemma yystack_pushed:
  assumes "good (l, c)"
  shows "\<exists>c0. yystack c = Returns c0 \<and> pushed c0 \<and> pathP c0 = yystate c # pathP c \<and>
           yyp c0 = yyp c + 1 \<and> yystate c0 = yystate c \<and> yylex c0 = yylex c \<and>
           yychar c0 = yychar c \<and> yyxchar c0 = yyxchar c"
proof -
  from assms have p: "- 1 \<le> yyp c" and s: "settled c" and v: "valid (yystate c # pathP c)"
    by (simp_all add: good_def)
  define c0 where "c0 = c\<lparr>yyp := yyp c + 1,
     yyS := (yyS c)(nat (yyp c + 1) := (yyVAL c)\<lparr>yys := yystate c\<rparr>)\<rparr>"
  from p have y: "yystack c = Returns c0"
    by (simp add: yystack_def Let_def c0_def)
  have n: "nat (yyp c0 + 1) = Suc (nat (yyp c + 1))"
    using p by (simp add: c0_def)
  have "pathP c0 = yys (yyS c0 (nat (yyp c + 1))) # map (\<lambda>i. yys (yyS c0 i)) (rev [0..<nat (yyp c + 1)])"
    unfolding pathP_def n by simp
  also have "yys (yyS c0 (nat (yyp c + 1))) = yystate c"
    by (simp add: c0_def)
  also have "map (\<lambda>i. yys (yyS c0 i)) (rev [0..<nat (yyp c + 1)]) = pathP c"
    unfolding pathP_def by (rule map_cong) (auto simp: c0_def)
  finally have pp: "pathP c0 = yystate c # pathP c" .
  from s have s0: "settled c0" by (simp add: settled_def c0_def)
  from p have "0 \<le> yyp c0" by (simp add: c0_def)
  with s0 pp v have "pushed c0" by (simp add: pushed_def c0_def)
  with y pp show ?thesis by (auto simp: c0_def)
qed

lemma first_match_nonempty: "first_match defs s = Some (str, tok) \<Longrightarrow> str \<noteq> []"
  by (induction defs) (auto simp: Let_def split: if_splits)

lemma Lex_input:
  assumes "Lex t lval = (n, t', lval')"
  shows "length (input t') \<le> length (input t) \<and> (n \<le> 0 \<or> length (input t') < length (input t))"
proof -
  define inp where "inp = dropWhile isSpace (input t)"
  have l: "length inp \<le> length (input t)"
    unfolding inp_def by (rule length_dropWhile_le)
  from assms have L: "(if length inp = 0 then (EOF, t\<lparr>input := inp\<rparr>, lval)
     else case first_match tokens inp of
       Some (str, tok) \<Rightarrow>
         (tok, t\<lparr>input := drop (length str) inp\<rparr>,
          lval\<lparr>String := (if tok = TERM_tok then Trim_quotes str else str)\<rparr>)
     | None \<Rightarrow> (int (of_char (hd inp)), t\<lparr>input := tl inp\<rparr>, lval)) = (n, t', lval')"
    unfolding Lex_def Let_def inp_def .
  show ?thesis
  proof (cases "inp = []")
    case True
    with L have "n = 0" and "input t' = []" by (auto simp: EOF_def)
    then show ?thesis by simp
  next
    case False
    show ?thesis
    proof (cases "first_match tokens inp")
      case None
      with False L have "input t' = tl inp" by auto
      with False l show ?thesis by (cases inp) auto
    next
      case (Some m)
      obtain str tok where m: "m = (str, tok)" by (cases m)
      with Some have "str \<noteq> []" by (simp add: first_match_nonempty)
      moreover from False L Some m have "input t' = drop (length str) inp"
        by auto
      ultimately show ?thesis using False l by (cases inp; cases str) auto
    qed
  qed
qed

lemma pathP_only: "yyS c' = yyS c \<Longrightarrow> yyp c' = yyp c \<Longrightarrow> pathP c' = pathP c"
  by (simp add: pathP_def)

lemma read_token_pushed:
  assumes "pushed c0"
  shows "pushed (read_token c0) \<and> 0 \<le> yychar (read_token c0) \<and>
         yyS (read_token c0) = yyS c0 \<and> yyp (read_token c0) = yyp c0 \<and>
         yystate (read_token c0) = yystate c0 \<and>
         (if yychar c0 < 0
          then weight (read_token c0) < weight c0 \<and>
               (yychar (read_token c0) \<noteq> yyEofCode \<longrightarrow>
                  length (input (yylex (read_token c0))) < length (input (yylex c0)))
          else read_token c0 = c0)"
proof (cases "yychar c0 < 0")
  case False
  with assms show ?thesis by (simp add: read_token_def)
next
  case True
  obtain n t' lval' where L: "Lex (yylex c0) ((yylval c0)\<lparr>yys := yystate c0\<rparr>) = (n, t', lval')"
    by (cases "Lex (yylex c0) ((yylval c0)\<lparr>yys := yystate c0\<rparr>)") auto
  define m where "m = (if n \<le> 0 then yyEofCode else n)"
  have r: "read_token c0 = c0\<lparr>yylex := t', yylval := lval', yychar := m, yyxchar := xlat m\<rparr>"
    using True L by (simp add: read_token_def yylex1_def m_def xlat_def)
  have mpos: "0 \<le> m" by (simp add: m_def yyEofCode_def)
  from Lex_input [OF L] have le: "length (input t') \<le> length (input (yylex c0))"
    and lt: "n \<le> 0 \<or> length (input t') < length (input (yylex c0))" by simp_all
  from Lex_errors [OF L] have er: "errors t' = errors (yylex c0)" .
  have p: "pathP (read_token c0) = pathP c0" by (rule pathP_only) (simp_all add: r)
  from assms er have "pushed (read_token c0)"
    by (simp add: pushed_def settled_def p) (simp add: r)
  moreover have "weight (read_token c0) < weight c0"
    using True le lt mpos by (auto simp: weight_def r m_def)
  moreover have "yychar (read_token c0) \<noteq> yyEofCode \<longrightarrow>
      length (input (yylex (read_token c0))) < length (input (yylex c0))"
    using lt by (auto simp: r m_def)
  ultimately show ?thesis using True mpos by (simp add: r)
qed

lemma pathP_nth:
  assumes "0 \<le> yyp c" and "k \<le> nat (yyp c)"
  shows "pathP c ! k = yys (yyS c (nat (yyp c) - k))"
proof -
  let ?m = "nat (yyp c)"
  from assms(1) have n: "nat (yyp c + 1) = Suc ?m" by simp
  have "rev [0..<Suc ?m] ! k = [0..<Suc ?m] ! (length [0..<Suc ?m] - Suc k)"
    using assms(2) by (subst rev_nth) simp_all
  also have "\<dots> = ?m - k" using assms(2) by (simp del: upt_Suc)
  finally have "rev [0..<Suc ?m] ! k = ?m - k" .
  then show ?thesis
    unfolding pathP_def n using assms(2) by (simp del: upt_Suc)
qed

lemma pathP_drop:
  assumes "yyS c' = yyS c" and "yyp c' = yyp c - int k"
  shows "pathP c' = drop k (pathP c)"
proof -
  let ?M = "nat (yyp c + 1)"
  have n: "nat (yyp c' + 1) = ?M - k" using assms(2) by simp
  have "drop k (rev [0..<?M]) = rev (take (?M - k) [0..<?M])"
    by (simp add: drop_rev)
  also have "take (?M - k) [0..<?M] = [0..<?M - k]"
    by (simp add: take_upt)
  finally show ?thesis
    unfolding pathP_def n assms(1) by (simp add: drop_map)
qed

lemma reduce_eval:
  assumes r: "r = 1 \<or> r = 2 \<or> r = 3 \<or> r = 4 \<or> r = 5 \<or> r = 6 \<or> r = 7"
    and red: "yyReductions r = (lhs, n)"
    and deep: "n \<le> yyp c"
    and row: "index yyParseTab (yys (yyS c (nat (yyp c - n)))) = Some row'"
    and g: "index row' lhs = Some g"
  shows "\<exists>c'. reduce c (- r) = Returns c' \<and> yyp c' = yyp c - n \<and> yystate c' = int g - 8 \<and>
           yyS c' = yyS c \<and> yychar c' = yychar c \<and> yyxchar c' = yyxchar c \<and>
           Errflag c' = Errflag c \<and> errors (yylex c') = errors (yylex c) \<and>
           input (yylex c') = input (yylex c)"
  using assms
  by (elim disjE) (auto simp: reduce_def yyReductions_def stack_at_def Let_def yyTabOfs_def)

lemma pathP_length: "length (pathP c) = nat (yyp c + 1)"
  by (simp add: pathP_def)

lemma reduce_generic:
  assumes pc: "pushed c"
    and path: "pathP c = pre @ b # rest'"
    and v: "valid (b # rest')"
    and row: "index yyParseTab b = Some row'"
    and g: "index row' lhs = Some g"
    and g8: "8 < g"
    and r: "r = 1 \<or> r = 2 \<or> r = 3 \<or> r = 4 \<or> r = 5 \<or> r = 6 \<or> r = 7"
    and red: "yyReductions r = (lhs, int (length pre))"
  shows "\<exists>c'. reduce c (- r) = Returns c' \<and> good (L_yystack, c') \<and> weight c' = weight c \<and>
           yyp c' = yyp c - int (length pre) \<and> yystate c' = int g - 8"
proof -
  let ?k = "length pre"
  from pc have yp: "0 \<le> yyp c" and st: "settled c" by (simp_all add: pushed_def)
  from path pathP_length [of c] have len: "nat (yyp c + 1) = ?k + 1 + length rest'" by simp
  with yp have deep: "int ?k \<le> yyp c" by linarith
  then have k: "?k \<le> nat (yyp c)" by simp
  from path have "pathP c ! ?k = b" by (simp add: nth_append)
  with pathP_nth [OF yp k] have "yys (yyS c (nat (yyp c) - ?k)) = b" by simp
  moreover have "nat (yyp c - int ?k) = nat (yyp c) - ?k" using yp by simp
  ultimately have row2: "index yyParseTab (yys (yyS c (nat (yyp c - int ?k)))) = Some row'"
    using row by simp
  from reduce_eval [OF r red deep row2 g]
  obtain c' where c': "reduce c (- r) = Returns c'" and p': "yyp c' = yyp c - int ?k"
    and s': "yystate c' = int g - 8" and S': "yyS c' = yyS c" and ch: "yychar c' = yychar c"
    and xch: "yyxchar c' = yyxchar c" and ef: "Errflag c' = Errflag c"
    and er: "errors (yylex c') = errors (yylex c)" and inp: "input (yylex c') = input (yylex c)"
    by blast
  from pathP_drop [OF S' p'] path have pp: "pathP c' = b # rest'" by simp
  from row g g8 have "edge b (int g - 8)" unfolding edge_def by blast
  with v pp s' have val: "valid (yystate c' # pathP c')" by simp
  from st ch xch ef er have "settled c'" by (simp add: settled_def)
  moreover from p' deep have "- 1 \<le> yyp c'" by simp
  ultimately have "good (L_yystack, c')" using val by (simp add: good_def)
  moreover have "weight c' = weight c" by (simp add: weight_def ch inp)
  ultimately show ?thesis using c' p' s' by blast
qed

lemma reduce_run:
  assumes pc: "pushed c"
    and e: "(yystate c, e) \<in> set [(2,7),(3,6),(6,4),(10,1),(11,2),(12,3),(14,5)]"
  shows "\<exists>c'. reduce c (int e - 8) = Returns c' \<and> good (L_yystack, c') \<and> weight c' = weight c \<and>
     (nat (yyp c' + 1) < nat (yyp c) \<or>
      (nat (yyp c' + 1) = nat (yyp c) \<and> rank (yystate c') < rank (yystate c)))"
proof -
  from pc have v0: "valid (pathP c)" and hd: "hd (pathP c) = yystate c" and yp: "0 \<le> yyp c"
    by (simp_all add: pushed_def)
  from v0 obtain rest where path: "pathP c = yystate c # rest"
    using hd by (cases "pathP c") auto
  with v0 have v: "valid (yystate c # rest)" by simp
  from e consider (start) "yystate c = 2" "e = 7" | (leaf) "yystate c = 3" "e = 6"
    | (unary) "yystate c = 6" "e = 4"
    | (three) "yystate c = 10 \<or> yystate c = 11 \<or> yystate c = 12 \<or> yystate c = 14"
        "int e - 8 = - 7 \<or> int e - 8 = - 6 \<or> int e - 8 = - 5 \<or> int e - 8 = - 3"
    by auto
  then show ?thesis
  proof cases
    case start
    from pop1_start [OF v start(1)] obtain rest' where r: "rest = 0 # rest'" and vb: "valid (0 # rest')"
      by blast
    from goto_start obtain row' where row: "index yyParseTab 0 = Some row'" and g: "index row' 9 = Some 9"
      by blast
    have p: "pathP c = [yystate c] @ 0 # rest'" using path r by simp
    have red: "yyReductions 1 = (9, int (length [yystate c]))" by (simp add: yyReductions_def)
    from reduce_generic [OF pc p vb row g _ _ red]
    obtain c' where "reduce c (- 1) = Returns c'" "good (L_yystack, c')" "weight c' = weight c"
      "yyp c' = yyp c - int (length [yystate c])" "yystate c' = int 9 - 8"
      by auto
    with start yp show ?thesis by (auto simp: rank_def)
  next
    case leaf
    from pop1 [OF v leaf(1)] obtain b rest' where r: "rest = b # rest'" and hb: "has_goto b"
      and vb: "valid (b # rest')" by blast
    from goto_node [OF hb] obtain row' g where row: "index yyParseTab b = Some row'"
      and g: "index row' 6 = Some g" and g8: "8 < g" and g3: "int g - 8 \<noteq> 3" by blast
    have p: "pathP c = [yystate c] @ b # rest'" using path r by simp
    have red: "yyReductions 2 = (6, int (length [yystate c]))" by (simp add: yyReductions_def)
    from reduce_generic [OF pc p vb row g g8 _ red]
    obtain c' where "reduce c (- 2) = Returns c'" "good (L_yystack, c')" "weight c' = weight c"
      "yyp c' = yyp c - int (length [yystate c])" "yystate c' = int g - 8"
      by auto
    with leaf yp g3 show ?thesis by (auto simp: rank_def)
  next
    case unary
    from pop2 [OF v unary(1)] obtain a b rest' where r: "rest = a # b # rest'" and hb: "has_goto b"
      and vb: "valid (b # rest')" by blast
    from goto_node [OF hb] obtain row' g where row: "index yyParseTab b = Some row'"
      and g: "index row' 6 = Some g" and g8: "8 < g" by blast
    have p: "pathP c = [yystate c, a] @ b # rest'" using path r by simp
    have red: "yyReductions 4 = (6, int (length [yystate c, a]))" by (simp add: yyReductions_def)
    from reduce_generic [OF pc p vb row g g8 _ red]
    obtain c' where "reduce c (- 4) = Returns c'" "good (L_yystack, c')" "weight c' = weight c"
      "yyp c' = yyp c - int (length [yystate c, a])" "yystate c' = int g - 8"
      by auto
    with unary yp show ?thesis by (auto simp: good_def)
  next
    case three
    from pop3 [OF v three(1)] obtain a a' b rest' where r: "rest = a # a' # b # rest'"
      and hb: "has_goto b" and vb: "valid (b # rest')" by blast
    from goto_node [OF hb] obtain row' g where row: "index yyParseTab b = Some row'"
      and g: "index row' 6 = Some g" and g8: "8 < g" by blast
    have p: "pathP c = [yystate c, a, a'] @ b # rest'" using path r by simp
    define r' where "r' = 8 - int e"
    from three(2) have rc: "r' = 1 \<or> r' = 2 \<or> r' = 3 \<or> r' = 4 \<or> r' = 5 \<or> r' = 6 \<or> r' = 7"
      and r3: "r' = 7 \<or> r' = 6 \<or> r' = 5 \<or> r' = 3"
      by (auto simp: r'_def)
    from r3 have red: "yyReductions r' = (6, int (length [yystate c, a, a']))"
      by (auto simp: yyReductions_def)
    from reduce_generic [OF pc p vb row g g8 rc red]
    obtain c' where "reduce c (- r') = Returns c'" "good (L_yystack, c')" "weight c' = weight c"
      "yyp c' = yyp c - int (length [yystate c, a, a'])" "yystate c' = int g - 8"
      by auto
    moreover have "- r' = int e - 8" by (simp add: r'_def)
    ultimately show ?thesis using yp by (auto simp: good_def)
  qed
qed

lemma pushed_path:
  assumes "pushed c"
  shows "\<exists>rest. pathP c = yystate c # rest \<and> valid (yystate c # rest)"
proof -
  from assms have v0: "valid (pathP c)" and hd: "hd (pathP c) = yystate c"
    by (simp_all add: pushed_def)
  then show ?thesis by (cases "pathP c") auto
qed

lemma pushed_row:
  assumes "pushed c"
  shows "\<exists>row. index yyParseTab (yystate c) = Some row"
proof -
  from pushed_path [OF assms] obtain rest where "valid (yystate c # rest)" by blast
  from valid_in_table [OF this, of "yystate c"] show ?thesis
    by (simp add: index_in_table)
qed

lemma action_pushed:
  assumes "index yyParseTab (yystate c) = Some row" and "0 \<le> yyxchar c"
  shows "action c = Returns (case index row (yyxchar c) of
            Some e \<Rightarrow> if e \<noteq> 0 then int e - 8 else 0 | None \<Rightarrow> 0)"
  using assms by (simp add: action_def index_def yyTabOfs_def)

lemma find_error_shift_none:
  assumes "\<forall>i<k. \<exists>row. index yyParseTab (yys (S i)) = Some row"
  shows "find_error_shift S k = Returns None"
  using assms
proof (induction k)
  case 0
  then show ?case by simp
next
  case (Suc k)
  then obtain row where r: "index yyParseTab (yys (S k)) = Some row" by blast
  from index_yyParseTab_length [OF r] have "\<not> 11 < length row" by simp
  with r Suc show ?case by simp
qed

lemma pushed_stack_rows:
  assumes "pushed c"
  shows "\<forall>i<nat (yyp c + 1). \<exists>row. index yyParseTab (yys (yyS c i)) = Some row"
proof (intro allI impI)
  fix i assume i: "i < nat (yyp c + 1)"
  from assms have v: "valid (pathP c)" by (simp add: pushed_def)
  from i have "yys (yyS c i) \<in> set (pathP c)"
    by (auto simp: pathP_def)
  from valid_in_table [OF v this] show "\<exists>row. index yyParseTab (yys (yyS c i)) = Some row"
    by (simp add: index_in_table)
qed

lemma yynewstate_progress:
  assumes pc0: "pushed c0"
  shows "(\<exists>c'. yynewstate c0 = Inl (L_yystack, c') \<and> good (L_yystack, c') \<and> closer c' c0)
       \<or> (\<exists>code t. yynewstate c0 = Inr (Returns (code, t)))"
proof -
  let ?c = "read_token c0"
  from read_token_pushed [OF pc0] have pc: "pushed ?c" and ch: "0 \<le> yychar ?c"
    and sS: "yyS ?c = yyS c0" and sp: "yyp ?c = yyp c0" and ss: "yystate ?c = yystate c0"
    and rd: "if yychar c0 < 0
          then weight ?c < weight c0 \<and>
               (yychar ?c \<noteq> yyEofCode \<longrightarrow>
                  length (input (yylex ?c)) < length (input (yylex c0)))
          else ?c = c0"
    by simp_all
  from rd have wle: "weight ?c \<le> weight c0" by (auto split: if_splits)
  from pc have st: "settled ?c" and yp: "0 \<le> yyp ?c" by (simp_all add: pushed_def)
  from st ch have x: "yyxchar ?c = xlat (yychar ?c)" and ef: "Errflag ?c = 0"
    and er: "errors (yylex ?c) = []" by (simp_all add: settled_def)
  from x xlat_range [of "yychar ?c"] have x0: "0 \<le> yyxchar ?c" by simp
  from pushed_row [OF pc] obtain row where row: "index yyParseTab (yystate ?c) = Some row" by blast
  define yyn where "yyn = (case index row (yyxchar ?c) of
            Some e \<Rightarrow> if e \<noteq> 0 then int e - 8 else 0 | None \<Rightarrow> 0)"
  from action_pushed [OF row x0] have act: "action ?c = Returns yyn" by (simp add: yyn_def)
  consider (shift) "0 < yyn" | (reduce) "yyn < 0" | (zero) "yyn = 0" by linarith
  then show ?thesis
  proof cases
    case shift
    then obtain e where e: "index row (yyxchar ?c) = Some e" and e8: "8 < e" and ye: "yyn = int e - 8"
      by (auto simp: yyn_def split: option.splits if_splits)
    have notend: "yychar ?c \<noteq> yyEofCode"
    proof
      assume "yychar ?c = yyEofCode"
      with x xlat_range [of "yychar ?c"] have "yyxchar ?c = 0" by simp
      with e no_shift_at_end [OF row] e8 show False by auto
    qed
    define c' where "c' = ?c\<lparr>yychar := - 1, yyVAL := yylval ?c, yystate := yyn, yyshift := yyn,
                 Errflag := (if Errflag ?c > 0 then Errflag ?c - 1 else Errflag ?c)\<rparr>"
    from act shift have n: "yynewstate c0 = Inl (L_yystack, c')"
      by (simp add: yynewstate_def Let_def c'_def)
    from pushed_path [OF pc] obtain rest where path: "pathP ?c = yystate ?c # rest"
      and v: "valid (yystate ?c # rest)" by blast
    have pp: "pathP c' = pathP ?c" by (rule pathP_only) (simp_all add: c'_def)
    from row e e8 ye have "edge (yystate ?c) yyn" unfolding edge_def by blast
    with v path pp have "valid (yystate c' # pathP c')" by (simp add: c'_def)
    moreover have "settled c'" using ef er by (simp add: settled_def c'_def)
    moreover have "- 1 \<le> yyp c'" using yp by (simp add: c'_def)
    ultimately have g: "good (L_yystack, c')" by (simp add: good_def)
    have "weight c' < weight c0"
    proof (cases "yychar c0 < 0")
      case True
      with rd notend have "length (input (yylex ?c)) < length (input (yylex c0))" by simp
      with True show ?thesis by (simp add: weight_def c'_def)
    next
      case False
      with rd have "?c = c0" by simp
      with notend False show ?thesis by (simp add: weight_def c'_def)
    qed
    then have "closer c' c0" by (simp add: closer_def)
    with n g show ?thesis by blast
  next
    case reduce
    then obtain e where e: "index row (yyxchar ?c) = Some e" and e0: "0 < e" and e8: "e < 8"
      and ye: "yyn = int e - 8"
      by (auto simp: yyn_def split: option.splits if_splits)
    from reduce_cases [OF row e e0 e8]
    have "(yystate ?c, e) \<in> set [(2,7),(3,6),(6,4),(10,1),(11,2),(12,3),(14,5)]" .
    from reduce_run [OF pc this] obtain c' where r: "reduce ?c (int e - 8) = Returns c'"
      and g: "good (L_yystack, c')" and w: "weight c' = weight ?c"
      and d: "nat (yyp c' + 1) < nat (yyp ?c) \<or>
        (nat (yyp c' + 1) = nat (yyp ?c) \<and> rank (yystate c') < rank (yystate ?c))"
      by blast
    from act reduce r ye have n: "yynewstate c0 = Inl (L_yystack, c')"
      by (simp add: yynewstate_def Let_def)
    from w wle d sp ss have "closer c' c0" by (auto simp: closer_def)
    with n g show ?thesis by blast
  next
    case zero
    show ?thesis
    proof (cases "yystate ?c = 1")
      case True
      with act zero have "yynewstate c0 = Inr (Returns (0, yylex ?c))"
        by (simp add: yynewstate_def Let_def)
      then show ?thesis by blast
    next
      case False
      define c2 where "c2 = ?c\<lparr>yylex := yylex_Error (yylex ?c) (syntax_error_msg (yychar ?c)),
                             Nerrs := Nerrs ?c + 1, Errflag := 3\<rparr>"
      have S2: "yyS c2 = yyS ?c" and p2: "yyp c2 = yyp ?c" by (simp_all add: c2_def)
      from pushed_stack_rows [OF pc]
      have "find_error_shift (yyS c2) (nat (yyp c2 + 1)) = Returns None"
        unfolding S2 p2 by (rule find_error_shift_none)
      with act zero False ef yp have "yynewstate c0 = Inr (Returns (1, yylex c2))"
        by (simp add: yynewstate_def Let_def c2_def)
      then show ?thesis by blast
    qed
  qed
qed

lemma yystep_progress:
  assumes "good lc"
  shows "(\<exists>lc'. yystep lc = Inl lc' \<and> good lc' \<and>
            (mu lc', mu lc) \<in> less_than <*lex*> less_than <*lex*> less_than)
       \<or> (\<exists>code t. yystep lc = Inr (Returns (code, t)))"
proof -
  obtain l c where lc: "lc = (l, c)" by (cases lc)
  from assms lc have l: "l = L_yystack" by (simp add: good_def)
  from yystack_pushed [of l c] assms lc
  obtain c0 where y: "yystack c = Returns c0" and pc0: "pushed c0" and p0: "yyp c0 = yyp c + 1"
    and s0: "yystate c0 = yystate c" and l0: "yylex c0 = yylex c" and ch0: "yychar c0 = yychar c"
    by blast
  have w0: "weight c0 = weight c" by (simp add: weight_def l0 ch0)
  from y l lc have st: "yystep lc = yynewstate c0" by (simp add: yystep_def)
  from yynewstate_progress [OF pc0] show ?thesis
  proof
    assume "\<exists>c'. yynewstate c0 = Inl (L_yystack, c') \<and> good (L_yystack, c') \<and> closer c' c0"
    then obtain c' where n: "yynewstate c0 = Inl (L_yystack, c')" and g: "good (L_yystack, c')"
      and cl: "closer c' c0" by blast
    from cl w0 p0 s0 have "(mu (L_yystack, c'), mu lc) \<in> less_than <*lex*> less_than <*lex*> less_than"
      by (auto simp: closer_def mu_def lc)
    with n g st show ?thesis by auto
  next
    assume "\<exists>code t. yynewstate c0 = Inr (Returns (code, t))"
    with st show ?thesis by simp
  qed
qed

lemma yyrun_returns:
  assumes "good lc"
  shows "\<exists>code t. yyrun lc = Some (Returns (code, t))"
proof -
  have "wf (inv_image (less_than <*lex*> less_than <*lex*> less_than) mu)"
    by (intro wf_inv_image wf_lex_prod wf_less_than)
  then show ?thesis using assms
  proof (induction lc rule: wf_induct_rule)
    case (less lc)
    from yystep_progress [OF less.prems] show ?case
    proof
      assume "\<exists>lc'. yystep lc = Inl lc' \<and> good lc' \<and>
            (mu lc', mu lc) \<in> less_than <*lex*> less_than <*lex*> less_than"
      then obtain lc' where s: "yystep lc = Inl lc'" and g: "good lc'"
        and m: "(mu lc', mu lc) \<in> less_than <*lex*> less_than <*lex*> less_than" by blast
      from m have "(lc', lc) \<in> inv_image (less_than <*lex*> less_than <*lex*> less_than) mu"
        by simp
      from less.IH [OF this g] obtain code t where "yyrun lc' = Some (Returns (code, t))" by blast
      moreover from s have "yyrun lc = yyrun lc'" by (subst yyrun.simps) simp
      ultimately show ?thesis by auto
    next
      assume "\<exists>code t. yystep lc = Inr (Returns (code, t))"
      then obtain code t where s: "yystep lc = Inr (Returns (code, t))" by blast
      then have "yyrun lc = Some (Returns (code, t))" by (subst yyrun.simps) simp
      then show ?thesis by blast
    qed
  qed
qed

lemma good_init:
  "good (L_yystack, yyParser_init \<lparr>input = inp, parseResult = nilNode, defaultAttr = [], errors = []\<rparr>)"
  by (simp add: good_def settled_def yyParser_init_def pathP_def)

text \<open>
  Claim C5. On every input the parser returns, with a code and the transformer as the
  run has left it, and \<^verbatim>\<open>NewBasicTransformer\<close> returns with it; neither panics. Either the
  code is 0, no error has been accumulated, and \<^verbatim>\<open>NewBasicTransformer\<close> returns that
  transformer and a nil error; or the code is 1, the parser has reported a syntax error,
  which is the first and only accumulated error, and \<^verbatim>\<open>NewBasicTransformer\<close> returns a nil
  transformer together with that error. So on every input on which the parser reports a
  syntax error the result is nil with the first accumulated error, and a transformer is
  returned only when the list of accumulated errors is empty.
\<close>

theorem NewBasicTransformer_syntax_error:
  "\<exists>code t'.
     yyParse \<lparr>input = inp, parseResult = nilNode, defaultAttr = [], errors = []\<rparr>
       = Some (Returns (code, t')) \<and>
     ((code = 0 \<and> errors t' = [] \<and>
         NewBasicTransformer inp dflt = Some (Returns (Some t', None)))
      \<or> (code = 1 \<and>
          (\<exists>c. errors t' = [errorString (syntax_error_msg c)] \<and>
               NewBasicTransformer inp dflt =
                 Some (Returns (None, Some (errorString (syntax_error_msg c)))))))"
proof -
  let ?t = "\<lparr>input = inp, parseResult = nilNode, defaultAttr = [], errors = []\<rparr>"
  from yyrun_returns [OF good_init] obtain code t'
    where run: "yyrun (L_yystack, yyParser_init ?t) = Some (Returns (code, t'))"
    by blast
  then have p: "yyParse ?t = Some (Returns (code, t'))" by (simp add: yyParse_def)
  from yyrun_verdict [OF run clean_init]
  have "(code = 0 \<and> errors t' = []) \<or>
        (code = 1 \<and> (\<exists>c. errors t' = [errorString (syntax_error_msg c)]))"
    by (simp add: verdict_def)
  with p have "(code = 0 \<and> errors t' = [] \<and>
         NewBasicTransformer inp dflt = Some (Returns (Some t', None)))
      \<or> (code = 1 \<and>
          (\<exists>c. errors t' = [errorString (syntax_error_msg c)] \<and>
               NewBasicTransformer inp dflt =
                 Some (Returns (None, Some (errorString (syntax_error_msg c))))))"
    by (auto simp: NewBasicTransformer_def)
  with p show ?thesis by blast
qed

theorem NewBasicTransformer_syntax_error_witness:
  "yyParse \<lparr>input = ''a AND'', parseResult = nilNode, defaultAttr = [], errors = []\<rparr>
     = Some (Returns (1, \<lparr>input = [], parseResult = nilNode, defaultAttr = [],
          errors = [errorString ''unexpected $end'']\<rparr>))
   \<and> NewBasicTransformer ''a AND'' ''word''
     = Some (Returns (None, Some (errorString ''unexpected $end'')))"
proof -
  have e: "yyParse \<lparr>input = ''a AND'', parseResult = nilNode, defaultAttr = [], errors = []\<rparr>
     = Some (Returns (1, \<lparr>input = [], parseResult = nilNode, defaultAttr = [],
          errors = [errorString ''unexpected $end'']\<rparr>))"
    by code_simp
  from NewBasicTransformer_syntax_error [of "''a AND''" "''word''"] e
  have "NewBasicTransformer ''a AND'' ''word''
     = Some (Returns (None, Some (errorString ''unexpected $end'')))"
    by auto
  with e show ?thesis by simp
qed

section \<open>Properties of the handlers\<close>

subsection \<open>The rows of a response\<close>




lemma upt_int_step: "map int [a ..< Suc (a + n)] = int a # map int [Suc a ..< Suc (a + n)]"
  by (simp add: upt_conv_Cons)


















subsection \<open>Choosing the corpora\<close>

text \<open>
  Claim C3 (as the code runs). The registry holds \<^verbatim>\<open>corpusA\<close> and \<^verbatim>\<open>corpusB\<close>. For the query
  string \<^verbatim>\<open>query=dog&x-fcs-context=corpusA\<close> the handler of \<^verbatim>\<open>part_001\<close> searches both
  corpora, not the one the context names; for \<^verbatim>\<open>x-fcs-context=nosuch\<close> it raises no
  diagnostic and searches both corpora again. On the first query string the v1.2 handler
  and the handler of \<^verbatim>\<open>part_000\<close> search \<^verbatim>\<open>corpusA\<close> alone.
\<close>

theorem corpora_DC_ignores_context:
  "corpora_DC [(''corpusA'', \<lparr>DefaultSearchAttr = ''word''\<rparr>), (''corpusB'', \<lparr>DefaultSearchAttr = ''word''\<rparr>)]
      [''query'' \<mapsto> [''dog''], ''x-fcs-context'' \<mapsto> [''corpusA'']]
     = Inr [''corpusA'', ''corpusB'']
   \<and> corpora_DC [(''corpusA'', \<lparr>DefaultSearchAttr = ''word''\<rparr>), (''corpusB'', \<lparr>DefaultSearchAttr = ''word''\<rparr>)]
      [''query'' \<mapsto> [''dog''], ''x-fcs-context'' \<mapsto> [''nosuch'']]
     = Inr [''corpusA'', ''corpusB'']
   \<and> corpora_v12 [(''corpusA'', \<lparr>DefaultSearchAttr = ''word''\<rparr>), (''corpusB'', \<lparr>DefaultSearchAttr = ''word''\<rparr>)]
      [''query'' \<mapsto> [''dog''], ''x-fcs-context'' \<mapsto> [''corpusA'']]
     = Inr ([''corpusA''], [''word''])
   \<and> corpora_handler [(''corpusA'', \<lparr>DefaultSearchAttr = ''word''\<rparr>), (''corpusB'', \<lparr>DefaultSearchAttr = ''word''\<rparr>)]
      [''query'' \<mapsto> [''dog''], ''x-fcs-context'' \<mapsto> [''corpusA'']]
     = Inr [''corpusA'']"
  by (simp add: corpora_DC_def corpora_v12_def corpora_handler_def GetCorpora_def Has_def
      ctx_Query_def SearchRetrArgFCSContext_def SliceContains_def)

text \<open>
  The v1.2 handler and the handler of \<^verbatim>\<open>part_000\<close> do what the claim says. With the key
  \<^verbatim>\<open>x-fcs-context\<close> present, a request that goes on searches the names of its value split
  at the commas, all of them in the registry; and an unknown name among them stops the
  request with the diagnostic for an unsupported parameter value. With the key absent
  the corpora are all those of the registry.
\<close>

lemma context_loop_v12_Inr:
  "context_loop_v12 rs vs (cs, as) = Inr (corpora, attrs) \<Longrightarrow>
     corpora = cs @ vs \<and> (\<forall>v\<in>set vs. map_of rs v \<noteq> None)"
proof (induction vs arbitrary: cs as)
  case Nil
  then show ?case by simp
next
  case (Cons v vs)
  show ?case
  proof (cases "map_of rs v")
    case None
    with Cons.prems show ?thesis by simp
  next
    case (Some resource)
    with Cons.prems
    have "context_loop_v12 rs vs (cs @ [v], as @ [DefaultSearchAttr resource]) = Inr (corpora, attrs)"
      by simp
    from Cons.IH [OF this] Some show ?thesis by simp
  qed
qed

lemma context_loop_v12_Inl:
  "context_loop_v12 rs vs (cs, as) = Inl (e, st) \<Longrightarrow>
     Code e = CodeUnsupportedParameterValue \<and> st = Http StatusBadRequest \<and>
     (\<exists>v\<in>set vs. map_of rs v = None \<and> Message e = ''Unknown context '' @ v)"
proof (induction vs arbitrary: cs as)
  case Nil
  then show ?case by simp
next
  case (Cons v vs)
  show ?case
  proof (cases "map_of rs v")
    case None
    with Cons.prems show ?thesis by auto
  next
    case (Some resource)
    with Cons.prems
    have "context_loop_v12 rs vs (cs @ [v], as @ [DefaultSearchAttr resource]) = Inl (e, st)"
      by simp
    from Cons.IH [OF this] show ?thesis by auto
  qed
qed

lemma context_loop_v12_unknown:
  "\<exists>v\<in>set vs. map_of rs v = None \<Longrightarrow> \<exists>e st. context_loop_v12 rs vs (cs, as) = Inl (e, st)"
proof (induction vs arbitrary: cs as)
  case Nil
  then show ?case by simp
next
  case (Cons v vs)
  show ?case
  proof (cases "map_of rs v")
    case None
    then show ?thesis by simp
  next
    case (Some resource)
    with Cons.prems have "\<exists>v\<in>set vs. map_of rs v = None" by auto
    from Cons.IH [OF this] Some show ?thesis by simp
  qed
qed

lemma corpora_v12_context:
  assumes "Has q ''x-fcs-context''"
  shows "(corpora_v12 rs q = Inr (corpora, attrs) \<longrightarrow>
            corpora = Split (ctx_Query q ''x-fcs-context'') (CHR '','') \<and>
            (\<forall>v\<in>set corpora. map_of rs v \<noteq> None))
       \<and> ((\<exists>v\<in>set (Split (ctx_Query q ''x-fcs-context'') (CHR '','')). map_of rs v = None) \<longrightarrow>
            (\<exists>e. corpora_v12 rs q = Inl (e, Http StatusBadRequest) \<and>
                 Code e = CodeUnsupportedParameterValue))"
  using assms context_loop_v12_Inr [of rs _ "[]" "[]" corpora attrs]
    context_loop_v12_unknown [of _ rs "[]" "[]"] context_loop_v12_Inl [of rs _ "[]" "[]"]
  by (fastforce simp: corpora_v12_def)

lemma corpora_v12_no_context:
  "\<not> Has q ''x-fcs-context'' \<Longrightarrow> \<exists>attrs. corpora_v12 rs q = Inr (map fst rs, attrs)"
  by (simp add: corpora_v12_def)

lemma corpora_handler_context:
  assumes "Has q ''x-fcs-context''"
  shows "(corpora_handler rs q = Inr corpora \<longrightarrow>
            corpora = Split (ctx_Query q ''x-fcs-context'') (CHR '','') \<and>
            (\<forall>v\<in>set corpora. map_of rs v \<noteq> None))
       \<and> ((\<exists>v\<in>set (Split (ctx_Query q ''x-fcs-context'') (CHR '','')). map_of rs v = None) \<longrightarrow>
            (\<exists>e. corpora_handler rs q = Inl (e, Http StatusBadRequest) \<and>
                 Code e = CodeUnsupportedParameterValue))"
proof -
  let ?ctx = "Split (ctx_Query q ''x-fcs-context'') (CHR '','')"
  show ?thesis
  proof (cases "find (\<lambda>v. \<not> SliceContains (map fst rs) v) ?ctx")
    case None
    then have "\<forall>v\<in>set ?ctx. map_of rs v \<noteq> None"
      by (auto simp: find_None_iff SliceContains_def map_of_eq_None_iff)
    with None assms show ?thesis
      by (auto simp: corpora_handler_def)
  next
    case (Some v)
    with assms show ?thesis
      by (auto simp: corpora_handler_def)
  qed
qed

lemma corpora_handler_no_context:
  "\<not> Has q ''x-fcs-context'' \<Longrightarrow> corpora_handler rs q = Inr (map fst rs)"
  by (simp add: corpora_handler_def)

text \<open>
  In the handler of \<^verbatim>\<open>part_001\<close> the context is read only when its value happens to be a
  key of the query string. Otherwise all the corpora of a registry that is not empty are
  searched, whatever the context names.
\<close>

lemma corpora_DC_value_not_a_key:
  assumes "\<not> Has q (ctx_Query q ''x-fcs-context'')" and "rs \<noteq> []"
  shows "corpora_DC rs q = Inr (GetCorpora rs)"
proof -
  have "find (\<lambda>v. map_of rs v = None) (GetCorpora rs) = None"
    by (auto simp: find_None_iff GetCorpora_def map_of_eq_None_iff)
  moreover have "length (GetCorpora rs) > 0"
    using assms(2) by (simp add: GetCorpora_def)
  ultimately show ?thesis
    using assms(1) by (simp add: corpora_DC_def SearchRetrArgFCSContext_def)
qed

end
